theory Spec2Isabelle
  imports Complex_Main
begin

section \<open>JavaScript values and strings\<close>






text \<open>Decimal digits, as \<open>String(n)\<close> prints a non-negative integer.\<close>

definition digitChar :: "nat \<Rightarrow> char" where
  "digitChar d = ''0123456789'' ! d"

fun decimal :: "nat \<Rightarrow> string" where
  "decimal n = (if n < 10 then [digitChar n] else decimal (n div 10) @ [digitChar (n mod 10)])"

declare decimal.simps [simp del]



text \<open>
  \<open>s.split(sep)\<close> with a string separator: the pieces between the occurrences
  of the separator, found from the left; always at least one piece. An empty separator
  splits into single characters.
\<close>

fun split_at :: "string \<Rightarrow> string \<Rightarrow> string list" where
  "split_at sep [] = [[]]"
| "split_at sep (c # s) =
     (if sep \<noteq> [] \<and> take (length sep) (c # s) = sep
      then [] # split_at sep (drop (length sep) (c # s))
      else (case split_at sep s of
              [] \<Rightarrow> [[c]]
            | p # ps \<Rightarrow> (c # p) # ps))"

definition js_split :: "string \<Rightarrow> string \<Rightarrow> string list" where
  "js_split sep s = (if sep = [] then map (\<lambda>c. [c]) s else split_at sep s)"

text \<open>
  \<open>s.replace(pat, rep)\<close> with a string pattern: only the first occurrence is
  replaced.
\<close>

fun replace_first :: "string \<Rightarrow> string \<Rightarrow> string \<Rightarrow> string" where
  "replace_first pat rep s =
     (if take (length pat) s = pat then rep @ drop (length pat) s
      else (case s of [] \<Rightarrow> [] | c # cs \<Rightarrow> c # replace_first pat rep cs))"

declare replace_first.simps [simp del]

text \<open>A template literal prints \<open>undefined\<close> for an absent value.\<close>

definition tpl :: "string option \<Rightarrow> string" where
  "tpl v = (case v of None \<Rightarrow> ''undefined'' | Some x \<Rightarrow> x)"

text \<open>\<open>xs.join(sep)\<close>.\<close>

fun join :: "string \<Rightarrow> string list \<Rightarrow> string" where
  "join sep [] = []"
| "join sep [x] = x"
| "join sep (x # y # ys) = x @ sep @ join sep (y # ys)"

datatype js_error = TypeError






section \<open>Command line: exit disposition (src/src/cli.ts)\<close>

text \<open>
  The tail of \<open>runTests\<close>, after \<open>const result = await runner.run()\<close>.
  \<open>process.exit\<close> ends the process, so every statement after it is dead: the model
  is a chain of early returns. The process is observed through the lines written with
  \<open>console.error\<close> and the code handed to \<open>process.exit\<close>. The runner's result is
  the string the source compares with \<open>===\<close>.
\<close>

record process_end =
  stderr_lines :: "string list"
  exit_code :: nat

definition runTests_exit :: "string \<Rightarrow> process_end" where
  "runTests_exit result =
    (if result = ''sigint'' then
       \<lparr>stderr_lines = [], exit_code = 130\<rparr>
     else if result = ''forbid-only'' then
       \<lparr>stderr_lines =
          [''====================================='',
           '' --forbid-only found a focused test.'',
           ''=====================================''],
        exit_code = 1\<rparr>
     else if result = ''no-tests'' then
       \<lparr>stderr_lines =
          [''================='',
           '' no tests found.'',
           ''=================''],
        exit_code = 1\<rparr>
     else
       \<lparr>stderr_lines = [], exit_code = (if result = ''failed'' then 1 else 0)\<rparr>)"



section \<open>Test generator: filters and the shard\<close>














section \<open>Worker runtime: hook order and status\<close>

text \<open>
  Modelled from the spec: the worker runtime that runs one test group (the worker-side
  executor is not among the sources; only tests of its behaviour are). The spec, 4.5:
  step 2 runs env \<open>beforeAll\<close>, then the user \<open>beforeAll\<close> hooks of every ancestor
  suite whose \<open>beforeAll\<close> has not yet run in this worker, in registration order;
  step 3c runs env \<open>beforeEach\<close> (outermost factory first), then the ancestors'
  \<open>beforeEach\<close> hooks outermost-first; step 3d runs the body if there is no prior
  error and the test is not skipped; step 3e runs the ancestors' \<open>afterEach\<close> hooks
  innermost-first, then env \<open>afterEach\<close> innermost-first, keeping the first error
  while later hooks still run; step 3f computes the status; step 4 runs the pending
  \<open>afterAll\<close> hooks in reverse order of the \<open>beforeAll\<close>s that executed. By the
  invariants of section 3 the \<open>afterAll\<close> of a suite runs once after the suite's
  last test in the worker: a suite is left, and its \<open>afterAll\<close> hooks run, when the
  next test of the group is not inside it, and what is still pending runs after the
  group's last test. A hook that throws does not stop the hooks of its kind that
  follow (section 7, HookFailure).

  A hook is described by what running it does: it may call \<open>skip()\<close>, call
  \<open>fail()\<close>, and throw. The dictionaries hooks return are left out. Whether the
  timer fires during an attempt is an input (\<open>timer_fires\<close>) that only the status
  reads.
\<close>

record hook =
  hook_name :: string
  calls_skip :: bool
  calls_fail :: bool
  throws :: "string option"

record env_decl =
  env_beforeAll :: "hook option"
  env_afterAll :: "hook option"
  env_beforeEach :: "hook option"
  env_afterEach :: "hook option"

record hook_suite =
  suite_id :: nat
  beforeAll :: "hook list"
  afterAll :: "hook list"
  beforeEach :: "hook list"
  afterEach :: "hook list"

text \<open>
  A test with its ancestor suites, outermost first. \<open>declared_skipped\<close> and
  \<open>declared_fail\<close> are the marks set at registration on the spec or on an
  enclosing suite.
\<close>

record test_decl =
  ancestors :: "hook_suite list"
  test_body :: hook
  declared_skipped :: bool
  declared_fail :: bool
  timer_fires :: bool

datatype status = Passed | Failed | TimedOut | Skipped

text \<open>
  Step 3f: if cancelled by timeout, \<open>timedOut\<close>; else if any \<open>skip()\<close> was
  observed, \<open>skipped\<close>; else if an error exists, \<open>failed\<close> (inverted to
  \<open>passed\<close> if expected to fail); else \<open>passed\<close> (inverted to \<open>failed\<close> if
  expected to fail).
\<close>

definition compute_status :: "bool \<Rightarrow> bool \<Rightarrow> string option \<Rightarrow> bool \<Rightarrow> status" where
  "compute_status cancelled skip_observed err expectedToFail =
    (if cancelled then TimedOut
     else if skip_observed then Skipped
     else if err \<noteq> None then (if expectedToFail then Passed else Failed)
     else (if expectedToFail then Failed else Passed))"

record run_state =
  trace :: "string list"
  first_error :: "string option"
  skip_seen :: bool
  fail_seen :: bool
  env_started :: bool
  started :: "nat list"
  pending :: "(nat \<times> hook list) list"
  statuses :: "status list"

definition initial_run_state :: run_state where
  "initial_run_state =
    \<lparr>trace = [], first_error = None, skip_seen = False, fail_seen = False,
     env_started = False, started = [], pending = [], statuses = []\<rparr>"

definition run_hook :: "hook \<Rightarrow> run_state \<Rightarrow> run_state" where
  "run_hook h st =
    st\<lparr>trace := trace st @ [hook_name h],
       first_error := (case first_error st of Some e \<Rightarrow> Some e | None \<Rightarrow> throws h),
       skip_seen := (skip_seen st \<or> calls_skip h),
       fail_seen := (fail_seen st \<or> calls_fail h)\<rparr>"

definition run_hooks :: "hook list \<Rightarrow> run_state \<Rightarrow> run_state" where
  "run_hooks hs st = foldl (\<lambda>s h. run_hook h s) st hs"

text \<open>The env lifecycle operations of one kind that are declared, outermost factory first.\<close>

definition env_hooks :: "(env_decl \<Rightarrow> hook option) \<Rightarrow> env_decl list \<Rightarrow> hook list" where
  "env_hooks sel envs = List.map_filter sel envs"

text \<open>
  Step 2 for the user hooks: every ancestor suite, outermost first, whose
  \<open>beforeAll\<close> has not yet run; its \<open>afterAll\<close> hooks are pushed on the stack of
  pending teardowns.
\<close>

fun enter_suites :: "hook_suite list \<Rightarrow> run_state \<Rightarrow> run_state" where
  "enter_suites [] st = st"
| "enter_suites (s # ss) st =
     (if suite_id s \<in> set (started st) then enter_suites ss st
      else enter_suites ss
             ((run_hooks (beforeAll s) st)
                \<lparr>started := started st @ [suite_id s],
                 pending := (suite_id s, afterAll s) # pending st\<rparr>))"

definition start_env :: "env_decl list \<Rightarrow> run_state \<Rightarrow> run_state" where
  "start_env envs st =
    (if env_started st then st
     else (run_hooks (env_hooks env_beforeAll envs) st)\<lparr>env_started := True\<rparr>)"

definition run_test :: "env_decl list \<Rightarrow> test_decl \<Rightarrow> run_state \<Rightarrow> run_state" where
  "run_test envs t st =
    (let st0 = st\<lparr>first_error := None, skip_seen := declared_skipped t,
                  fail_seen := declared_fail t\<rparr>;
         st1 = enter_suites (ancestors t) (start_env envs st0);
         st2 = run_hooks (env_hooks env_beforeEach envs @ concat (map beforeEach (ancestors t))) st1;
         st3 = (if first_error st2 = None \<and> \<not> skip_seen st2 then run_hook (test_body t) st2
                else st2);
         st4 = run_hooks (rev (concat (map afterEach (ancestors t)))
                          @ rev (env_hooks env_afterEach envs)) st3
     in st4\<lparr>statuses := statuses st4 @
              [compute_status (timer_fires t) (skip_seen st4) (first_error st4) (fail_seen st4)]\<rparr>)"

text \<open>
  Leaving suites: the pending suites, innermost first, that the next test is not
  inside (\<open>next\<close> holds the ids of its ancestors; none after the last test).
\<close>

definition leave_suites :: "nat list \<Rightarrow> run_state \<Rightarrow> run_state" where
  "leave_suites next st =
    (run_hooks (concat (map (\<lambda>p. rev (snd p))
                            (takeWhile (\<lambda>p. fst p \<notin> set next) (pending st)))) st)
      \<lparr>pending := dropWhile (\<lambda>p. fst p \<notin> set next) (pending st)\<rparr>"

fun run_tests :: "env_decl list \<Rightarrow> test_decl list \<Rightarrow> run_state \<Rightarrow> run_state" where
  "run_tests envs [] st = st"
| "run_tests envs (t # ts) st =
     run_tests envs ts
       (leave_suites (case ts of [] \<Rightarrow> [] | n # _ \<Rightarrow> map suite_id (ancestors n))
          (run_test envs t st))"

definition finish_group :: "env_decl list \<Rightarrow> run_state \<Rightarrow> run_state" where
  "finish_group envs st =
    run_hooks (concat (map (\<lambda>p. rev (snd p)) (pending st))
               @ rev (env_hooks env_afterAll envs)) st"

definition run_group :: "env_decl list \<Rightarrow> test_decl list \<Rightarrow> run_state" where
  "run_group envs tests = finish_group envs (run_tests envs tests initial_run_state)"

text \<open>
  The hooks declared to run before the body of a test, in the order of steps 2 and 3c.
\<close>

definition before_hooks :: "env_decl list \<Rightarrow> test_decl \<Rightarrow> hook list" where
  "before_hooks envs t =
    env_hooks env_beforeAll envs @ concat (map beforeAll (ancestors t))
    @ env_hooks env_beforeEach envs @ concat (map beforeEach (ancestors t))"

text \<open>
  Scenario 7 of the spec: an env with the four operations and a suite with one user
  hook of each kind around one test; each hook is named by the line it logs.
\<close>

definition plain_hook :: "string \<Rightarrow> hook" where
  "plain_hook n = \<lparr>hook_name = n, calls_skip = False, calls_fail = False, throws = None\<rparr>"

definition scenario_env :: env_decl where
  "scenario_env =
    \<lparr>env_beforeAll = Some (plain_hook ''+w''), env_afterAll = Some (plain_hook ''-w''),
     env_beforeEach = Some (plain_hook ''+t''), env_afterEach = Some (plain_hook ''-t'')\<rparr>"

definition scenario_test :: test_decl where
  "scenario_test =
    \<lparr>ancestors =
       [\<lparr>suite_id = 1,
         beforeAll = [plain_hook ''beforeAll-17''], afterAll = [plain_hook ''afterAll-17''],
         beforeEach = [plain_hook ''beforeEach-42''], afterEach = [plain_hook ''afterEach-42'']\<rparr>],
     test_body = plain_hook ''test'',
     declared_skipped = False, declared_fail = False, timer_fires = False\<rparr>"

text \<open>
  The second test of \<open>hooks should work with env\<close>, outside the suite; its
  expectation is about the lines logged before its body runs.
\<close>

definition scenario_test_two :: test_decl where
  "scenario_test_two =
    \<lparr>ancestors = [], test_body = plain_hook ''two'',
     declared_skipped = False, declared_fail = False, timer_fires = False\<rparr>"

text \<open>
  The first test of \<open>skip should take priority over fail\<close>: a suite marked with
  \<open>test.fail()\<close> and a body that calls \<open>test.skip()\<close> before a failing
  expectation.
\<close>

definition skip_in_failing_suite :: test_decl where
  "skip_in_failing_suite =
    \<lparr>ancestors = [\<lparr>suite_id = 1, beforeAll = [], afterAll = [], beforeEach = [], afterEach = []\<rparr>],
     test_body = \<lparr>hook_name = ''skipped'', calls_skip = True, calls_fail = False,
                  throws = Some ''expect(1 + 1).toBe(3)''\<rparr>,
     declared_skipped = False, declared_fail = True, timer_fires = False\<rparr>"

section \<open>Test tree as the reporters read it\<close>

text \<open>
  The reporters read a \<open>Test\<close> through \<open>test.spec\<close> (title, full title, the
  parent suite's full title, file, line, column), \<open>test.skipped\<close>, \<open>test.ok()\<close>,
  \<open>test.results\<close> and \<open>test.variation\<close>. The classes are declared outside the
  sources at hand, so each value read is a field, \<open>ok\<close> being the result of the call
  \<open>test.ok()\<close>. A file suite is its file and the tests \<open>suite.findTest\<close> visits,
  in the order of the visit; \<open>this.suite.suites\<close> is the list of file suites.
\<close>

record TestResult =
  duration :: int
  stdout :: "string list"
  stderr :: "string list"

record Test =
  spec_title :: string
  spec_fullTitle :: string
  spec_parent_fullTitle :: string
  spec_file :: string
  spec_line :: nat
  spec_column :: nat
  skipped :: bool
  ok :: bool
  results :: "TestResult list"
  variation :: "(string \<times> string) list"

record Suite =
  suite_file :: string
  suite_tests :: "Test list"

record FullConfig =
  testDir :: string
  outputDir :: string

text \<open>
  What the reporters call and the sources do not define: \<open>path.relative\<close> and
  \<open>path.basename\<close> of Node, \<open>stripAscii(formatFailure(config, test))\<close> of
  \<open>./base\<close>, and \<open>String(x)\<close> on a number. They are parameters.
\<close>

record externals =
  path_relative :: "string \<Rightarrow> string \<Rightarrow> string"
  path_basename :: "string \<Rightarrow> string"
  failure_text :: "FullConfig \<Rightarrow> Test \<Rightarrow> string"
  number_string :: "rat \<Rightarrow> string"

section \<open>JUnit reporter (src/src/reporters/junit.ts)\<close>

text \<open>
  \<open>XMLEntry\<close>: absent \<open>attributes\<close> and \<open>children\<close> are the empty list, which
  is how \<open>serializeXML\<close> reads them (\<open>entry.attributes || {}\<close>,
  \<open>entry.children || []\<close>); the attributes keep their insertion order.
\<close>

datatype attr_value = AString string | ANumber rat | ABoolean bool

datatype XMLEntry =
  XMLEntry (xml_name: string) (xml_attributes: "(string \<times> attr_value) list")
    (xml_children: "XMLEntry list") (xml_text: "string option")

record JUnitReporter =
  jr_config :: "FullConfig option"
  jr_suite :: "Suite list option"
  jr_timestamp :: int
  jr_startTime :: int
  totalTests :: nat
  totalFailures :: nat
  totalSkipped :: nat
  outputFile :: "string option"
  stripANSIControlSequences :: bool

text \<open>The constructor; both options may be absent.\<close>

definition junit_new :: "string option \<Rightarrow> bool option \<Rightarrow> JUnitReporter" where
  "junit_new outFile strip =
    \<lparr>jr_config = None, jr_suite = None, jr_timestamp = 0, jr_startTime = 0,
     totalTests = 0, totalFailures = 0, totalSkipped = 0,
     outputFile = outFile,
     stripANSIControlSequences = (case strip of None \<Rightarrow> False | Some b \<Rightarrow> b)\<rparr>"

text \<open>\<open>onBegin\<close>; \<open>now\<close> is \<open>Date.now()\<close> and \<open>monotonic\<close> is \<open>monotonicTime()\<close>.\<close>

definition junit_onBegin ::
  "FullConfig \<Rightarrow> Suite list \<Rightarrow> int \<Rightarrow> int \<Rightarrow> JUnitReporter \<Rightarrow> JUnitReporter" where
  "junit_onBegin cfg suite now monotonic r =
    r\<lparr>jr_config := Some cfg, jr_suite := Some suite, jr_timestamp := now, jr_startTime := monotonic\<rparr>"

text \<open>
  \<open>_addTestCase\<close>. The entry is pushed on \<open>entries\<close> first and its \<open>children\<close>
  are pushed on afterwards, through the same object: \<open>push_child k\<close> updates the
  element of the list at the index \<open>k\<close> where the entry was pushed.
\<close>

definition push_child :: "nat \<Rightarrow> XMLEntry \<Rightarrow> XMLEntry list \<Rightarrow> XMLEntry list" where
  "push_child k c es =
    es[k := XMLEntry (xml_name (es ! k)) (xml_attributes (es ! k))
                     (xml_children (es ! k) @ [c]) (xml_text (es ! k))]"

definition total_duration :: "Test \<Rightarrow> int" where
  "total_duration test = foldl (\<lambda>acc v. acc + duration v) 0 (results test)"

definition push_output :: "XMLEntry list \<Rightarrow> TestResult \<Rightarrow> XMLEntry list" where
  "push_output es result =
    foldl (\<lambda>e x. e @ [XMLEntry ''system-err'' [] [] (Some x)])
      (foldl (\<lambda>e x. e @ [XMLEntry ''system-out'' [] [] (Some x)]) es (stdout result))
      (stderr result)"

definition addTestCase ::
  "externals \<Rightarrow> FullConfig \<Rightarrow> Test \<Rightarrow> XMLEntry list \<Rightarrow> XMLEntry list" where
  "addTestCase ext cfg test entries =
    (let entry = XMLEntry ''testcase''
           [(''name'', AString (spec_fullTitle test)),
            (''classname'', AString (path_relative ext (testDir cfg) (spec_file test)
                                     @ '' '' @ spec_parent_fullTitle test)),
            (''time'', ANumber (of_int (total_duration test) / 1000))]
           [] None;
         k = length entries;
         es1 = entries @ [entry]
     in if skipped test then push_child k (XMLEntry ''skipped'' [] [] None) es1
        else
          (let es2 =
             (if \<not> ok test then
                push_child k
                  (XMLEntry ''failure''
                     [(''message'', AString (path_basename ext (spec_file test) @ '':''
                         @ decimal (spec_line test) @ '':'' @ decimal (spec_column test)
                         @ '' '' @ spec_title test)),
                      (''type'', AString ''FAILURE'')]
                     [] (Some (failure_text ext cfg test)))
                  es1
              else es1)
           in foldl push_output es2 (results test)))"

text \<open>\<open>_buildTestSuite\<close>: the callback of \<open>findTest\<close> updates the local counters.\<close>

record suite_counters =
  c_tests :: nat
  c_skipped :: nat
  c_failures :: nat
  c_duration :: int
  c_children :: "XMLEntry list"

definition visit_test ::
  "externals \<Rightarrow> FullConfig \<Rightarrow> suite_counters \<Rightarrow> Test \<Rightarrow> suite_counters" where
  "visit_test ext cfg c test =
    \<lparr>c_tests = c_tests c + 1,
     c_skipped = (if skipped test then c_skipped c + 1 else c_skipped c),
     c_failures = (if \<not> ok test then c_failures c + 1 else c_failures c),
     c_duration = foldl (\<lambda>d result. d + duration result) (c_duration c) (results test),
     c_children = addTestCase ext cfg test (c_children c)\<rparr>"

definition buildTestSuite ::
  "externals \<Rightarrow> FullConfig \<Rightarrow> JUnitReporter \<Rightarrow> Suite \<Rightarrow> XMLEntry \<times> JUnitReporter" where
  "buildTestSuite ext cfg r suite =
    (let c = foldl (visit_test ext cfg)
               \<lparr>c_tests = 0, c_skipped = 0, c_failures = 0, c_duration = 0, c_children = []\<rparr>
               (suite_tests suite);
         r' = r\<lparr>totalTests := totalTests r + c_tests c,
                totalSkipped := totalSkipped r + c_skipped c,
                totalFailures := totalFailures r + c_failures c\<rparr>
     in (XMLEntry ''testsuite''
           [(''name'', AString (path_relative ext (testDir cfg) (suite_file suite))),
            (''timestamp'', ANumber (of_int (jr_timestamp r))),
            (''hostname'', AString []),
            (''tests'', ANumber (of_nat (c_tests c))),
            (''failures'', ANumber (of_nat (c_failures c))),
            (''skipped'', ANumber (of_nat (c_skipped c))),
            (''time'', ANumber (of_int (c_duration c) / 1000)),
            (''errors'', ANumber 0)]
           (c_children c) None,
         r'))"

subsection \<open>Escaping\<close>

text \<open>
  A regular expression as the source's \<open>ansiControlSequence\<close> needs: classes of
  characters given by ranges of codes, sequence, alternative, and the greedy
  quantifiers \<open>*\<close> and \<open>?\<close>. \<open>matches r s\<close> lists what is left of \<open>s\<close> after
  each way \<open>r\<close> matches a prefix of it, in the order in which a backtracking matcher
  tries them: the first element is the match it reports. An iteration of a
  quantifier that consumes nothing is rejected.
\<close>

datatype regex =
  Eps
| Cls "(char \<times> char) list"
| Seq regex regex
| Alt regex regex
| Star regex
| Opt regex

definition inClass :: "(char \<times> char) list \<Rightarrow> char \<Rightarrow> bool" where
  "inClass rs c =
    list_ex (\<lambda>(lo, hi). (of_char lo :: nat) \<le> of_char c \<and> (of_char c :: nat) \<le> of_char hi) rs"

fun matches :: "regex \<Rightarrow> string \<Rightarrow> string list" where
  "matches Eps s = [s]"
| "matches (Cls rs) [] = []"
| "matches (Cls rs) (c # s) = (if inClass rs c then [s] else [])"
| "matches (Seq a b) s = concat (map (matches b) (matches a s))"
| "matches (Alt a b) s = matches a s @ matches b s"
| "matches (Star a) s =
     concat (map (\<lambda>s'. if length s' < length s then matches (Star a) s' else [])
                 (matches a s)) @ [s]"
| "matches (Opt a) s = filter (\<lambda>s'. length s' < length s) (matches a s) @ [s]"

text \<open>\<open>r{0,n}\<close>, greedy.\<close>

primrec upto_times :: "nat \<Rightarrow> regex \<Rightarrow> regex" where
  "upto_times 0 r = Eps"
| "upto_times (Suc n) r = Opt (Seq r (upto_times n r))"

text \<open>
  \<open>text.replace(re, '')\<close> for a global regular expression: from the left, each match
  is removed and the scan goes on behind it; where there is no match (or an empty
  one) the character is kept and the scan moves one character on.
\<close>

fun remove_matches :: "regex \<Rightarrow> string \<Rightarrow> string" where
  "remove_matches r [] = []"
| "remove_matches r (c # s) =
     (case matches r (c # s) of
        [] \<Rightarrow> c # remove_matches r s
      | rest # _ \<Rightarrow>
          if length rest < length (c # s) then remove_matches r rest
          else c # remove_matches r s)"

definition single :: "char \<Rightarrow> char \<times> char" where
  "single c = (c, c)"

definition digit_class :: "(char \<times> char) list" where
  "digit_class = [(CHR ''0'', CHR ''9'')]"

definition alnum_class :: "(char \<times> char) list" where
  "alnum_class = [(CHR ''a'', CHR ''z''), (CHR ''A'', CHR ''Z'')] @ digit_class"

text \<open>
  The source's pattern:
  \<^verbatim>\<open>[\u001B\u009B][[\]()#;?]*(?:(?:(?:[a-zA-Z\d]*(?:;[-a-zA-Z\d\/#&.:=?%@~_]*)*)?\u0007)|(?:(?:\d{1,4}(?:;\d{0,4})*)?[\dA-PR-TZcf-ntqry=><~]))\<close>
\<close>

definition ansiControlSequence :: regex where
  "ansiControlSequence =
    Seq (Cls [single (CHR 0x1B), single (CHR 0x9B)])
     (Seq (Star (Cls (map single ''[]()#;?'')))
       (Alt
         (Seq
           (Opt (Seq (Star (Cls alnum_class))
                     (Star (Seq (Cls [single (CHR '';'')])
                                (Star (Cls (single (CHR ''-'') # alnum_class
                                            @ map single ''/#&.:=?%@~_'')))))))
           (Cls [single (CHR 0x07)]))
         (Seq
           (Opt (Seq (Seq (Cls digit_class) (upto_times (Suc (Suc (Suc 0))) (Cls digit_class)))
                     (Star (Seq (Cls [single (CHR '';'')])
                                (upto_times (Suc (Suc (Suc (Suc 0)))) (Cls digit_class))))))
           (Cls (digit_class @ [(CHR ''A'', CHR ''P''), (CHR ''R'', CHR ''T''), single (CHR ''Z''),
                  single (CHR ''c''), (CHR ''f'', CHR ''n'')]
                 @ map single ''tqry=><~'')))))"

text \<open>
  \<open>discouragedXMLCharacters\<close>:
  \<^verbatim>\<open>/[\u0001-\u0008\u000b-\u000c\u000e-\u001f\u007f-\u0084\u0086-\u009f]/g\<close>
\<close>

definition discouraged :: "char \<Rightarrow> bool" where
  "discouraged c =
    (let n = (of_char c :: nat)
     in (1 \<le> n \<and> n \<le> 8) \<or> (11 \<le> n \<and> n \<le> 12) \<or> (14 \<le> n \<and> n \<le> 31)
        \<or> (127 \<le> n \<and> n \<le> 132) \<or> (134 \<le> n \<and> n \<le> 159))"

text \<open>The callback of the first \<open>replace\<close>: the object literal indexed by the character.\<close>

definition entity :: "char \<Rightarrow> string" where
  "entity c =
    (if c = CHR ''&'' then ''&amp;''
     else if c = CHR 0x22 then ''&quot;''
     else if c = CHR ''<'' then ''&lt;''
     else if c = CHR ''>'' then ''&gt;''
     else ''undefined'')"

text \<open>\<open>escapeRe\<close>: \<open>/[&<]/g\<close> for character data, \<open>/[&"<>]/g\<close> otherwise.\<close>

definition escapeRe :: "bool \<Rightarrow> char \<Rightarrow> bool" where
  "escapeRe isCharacterData c =
    (if isCharacterData then c \<in> {CHR ''&'', CHR ''<''}
     else c \<in> {CHR ''&'', CHR 0x22, CHR ''<'', CHR ''>''})"

text \<open>\<open>text.replace(/]]>/g, ']]&gt;')\<close>.\<close>

fun replace_cdata_end :: "string \<Rightarrow> string" where
  "replace_cdata_end [] = []"
| "replace_cdata_end (c # s) =
     (if c = CHR '']'' \<and> take 2 s = '']>'' then '']]&gt;'' @ replace_cdata_end (drop 2 s)
      else c # replace_cdata_end s)"

definition escape :: "string \<Rightarrow> bool \<Rightarrow> bool \<Rightarrow> string" where
  "escape text strip isCharacterData =
    (let t1 = (if strip then remove_matches ansiControlSequence text else text);
         t2 = concat (map (\<lambda>c. if escapeRe isCharacterData c then entity c else [c]) t1);
         t3 = (if isCharacterData then replace_cdata_end t2 else t2)
     in filter (\<lambda>c. \<not> discouraged c) t3)"

text \<open>
  The escape step as the spec words it, one character at a time: each of
  \<open>&\<close>, \<open><\<close>, \<open>>\<close> and the double quote becomes its entity, and an
  XML-forbidden control code is dropped. The control codes XML 1.0 forbids are those
  below U+0020 other than tab, line feed and carriage return.
\<close>

definition xml_forbidden :: "char \<Rightarrow> bool" where
  "xml_forbidden c = ((of_char c :: nat) < 32 \<and> (of_char c :: nat) \<notin> {9, 10, 13})"

definition escape_spec_char :: "char \<Rightarrow> string" where
  "escape_spec_char c =
    (if c \<in> {CHR ''&'', CHR 0x22, CHR ''<'', CHR ''>''} then entity c
     else if xml_forbidden c then []
     else [c])"

definition escape_spec :: "string \<Rightarrow> string" where
  "escape_spec t = concat (map escape_spec_char t)"

text \<open>
  What the source does, one character at a time for an attribute value: the four
  entities, and the characters of \<open>discouragedXMLCharacters\<close> dropped. For
  character data, as one scan: only \<open>&\<close> and \<open><\<close> become entities, and \<open>>\<close>
  does where it closes \<open>]]>\<close>.
\<close>

definition attribute_char :: "char \<Rightarrow> string" where
  "attribute_char c =
    (if c \<in> {CHR ''&'', CHR 0x22, CHR ''<'', CHR ''>''} then entity c
     else if discouraged c then []
     else [c])"

fun chardata_scan :: "string \<Rightarrow> string" where
  "chardata_scan [] = []"
| "chardata_scan (c # s) =
     (if c = CHR '']'' \<and> take 2 s = '']>'' then '']]&gt;'' @ chardata_scan (drop 2 s)
      else (if c \<in> {CHR ''&'', CHR ''<''} then entity c else [c]) @ chardata_scan s)"

text \<open>The line \<open>colors.yellow('Hello world')\<close> prints, followed by markup.\<close>

definition yellow_hello :: string where
  "yellow_hello = CHR 0x1B # ''[33mHello world'' @ CHR 0x1B # ''[39m <b> & ]]>''"

subsection \<open>Serialising and \<open>onEnd\<close>\<close>

definition js_String :: "externals \<Rightarrow> attr_value \<Rightarrow> string" where
  "js_String ext v =
    (case v of
       AString x \<Rightarrow> x
     | ANumber q \<Rightarrow> number_string ext q
     | ABoolean b \<Rightarrow> (if b then ''true'' else ''false''))"

fun serializeXML :: "externals \<Rightarrow> XMLEntry \<Rightarrow> string list \<Rightarrow> bool \<Rightarrow> string list" where
  "serializeXML ext (XMLEntry n as cs txt) tokens strip =
    (let attrs = map (\<lambda>(k, v). k @ [CHR ''='', CHR 0x22] @ escape (js_String ext v) strip False
                                 @ [CHR 0x22]) as;
         t1 = tokens @ [''<'' @ n @ (if attrs \<noteq> [] then '' '' else []) @ join '' '' attrs @ ''>''];
         t2 = foldl (\<lambda>t c. serializeXML ext c t strip) t1 cs;
         t3 = (case txt of
                 None \<Rightarrow> t2
               | Some x \<Rightarrow> if x \<noteq> [] then t2 @ [escape x strip True] else t2)
     in t3 @ [''</'' @ n @ ''>''])"

text \<open>
  The serialisation written as a function of the element alone: the opening tag with
  every attribute value escaped as an attribute value, the children in order with the
  same setting, the text (if not empty) escaped as character data, the closing tag.
\<close>

definition open_tag :: "externals \<Rightarrow> bool \<Rightarrow> string \<Rightarrow> (string \<times> attr_value) list \<Rightarrow> string" where
  "open_tag ext strip n as =
    ''<'' @ n @ (if as \<noteq> [] then '' '' else [])
    @ join '' '' (map (\<lambda>(k, v). k @ [CHR ''='', CHR 0x22]
                                @ escape (js_String ext v) strip False @ [CHR 0x22]) as)
    @ ''>''"

definition text_tokens :: "bool \<Rightarrow> string option \<Rightarrow> string list" where
  "text_tokens strip txt =
    (case txt of None \<Rightarrow> [] | Some x \<Rightarrow> if x \<noteq> [] then [escape x strip True] else [])"

fun render :: "externals \<Rightarrow> bool \<Rightarrow> XMLEntry \<Rightarrow> string list" where
  "render ext strip (XMLEntry n as cs txt) =
    open_tag ext strip n as # concat (map (render ext strip) cs)
    @ text_tokens strip txt @ [''</'' @ n @ ''>'']"

text \<open>
  \<open>onEnd\<close>. \<open>penv\<close> is \<open>process.env\<close>, \<open>monotonic\<close> is \<open>monotonicTime()\<close> at
  the call. The report is written to \<open>out_file\<close>, or printed when that is
  \<open>None\<close>. \<open>onBegin\<close> sets \<open>config\<close> and \<open>suite\<close> together; without them the
  property reads of \<open>onEnd\<close> raise.
\<close>

record junit_output =
  out_root :: XMLEntry
  out_report :: string
  out_file :: "string option"

definition env_or_empty :: "(string \<Rightarrow> string option) \<Rightarrow> string \<Rightarrow> string" where
  "env_or_empty penv k = (case penv k of None \<Rightarrow> [] | Some v \<Rightarrow> v)"

definition nonempty :: "string option \<Rightarrow> string option" where
  "nonempty v = (case v of None \<Rightarrow> None | Some x \<Rightarrow> if x = [] then None else Some x)"

definition junit_onEnd ::
  "externals \<Rightarrow> (string \<Rightarrow> string option) \<Rightarrow> int \<Rightarrow> JUnitReporter
     \<Rightarrow> js_error + (junit_output \<times> JUnitReporter)" where
  "junit_onEnd ext penv monotonic r =
    (case (jr_config r, jr_suite r) of
       (Some cfg, Some suite) \<Rightarrow>
         (let dur = monotonic - jr_startTime r;
              (children, r') =
                 foldl (\<lambda>(cs, r1) s. (let (e, r2) = buildTestSuite ext cfg r1 s in (cs @ [e], r2)))
                       ([], r) suite;
              root = XMLEntry ''testsuites''
                       [(''id'', AString (env_or_empty penv ''FOLIO_JUNIT_SUITE_ID'')),
                        (''name'', AString (env_or_empty penv ''FOLIO_JUNIT_SUITE_NAME'')),
                        (''tests'', ANumber (of_nat (totalTests r'))),
                        (''failures'', ANumber (of_nat (totalFailures r'))),
                        (''skipped'', ANumber (of_nat (totalSkipped r'))),
                        (''errors'', ANumber 0),
                        (''time'', ANumber (of_int dur / 1000))]
                       children None;
              tokens = serializeXML ext root [] (stripANSIControlSequences r');
              reportString = join [CHR 0x0A] tokens
          in Inr (\<lparr>out_root = root, out_report = reportString,
                    out_file = (case nonempty (outputFile r') of
                                  Some f \<Rightarrow> Some f
                                | None \<Rightarrow> nonempty (penv ''FOLIO_JUNIT_OUTPUT_NAME''))\<rparr>,
                  r'))
     | _ \<Rightarrow> Inl TypeError)"

subsection \<open>The report, element by element\<close>

text \<open>
  What the claims say the report holds, for comparison with what \<open>_addTestCase\<close> and
  \<open>_buildTestSuite\<close> build: the children of a test's \<open>testcase\<close>, the
  \<open>system-out\<close> and \<open>system-err\<close> elements of a test, and the \<open>testcase\<close>
  itself.
\<close>

definition case_children :: "externals \<Rightarrow> FullConfig \<Rightarrow> Test \<Rightarrow> XMLEntry list" where
  "case_children ext cfg test =
    (if skipped test then [XMLEntry ''skipped'' [] [] None]
     else if \<not> ok test then
       [XMLEntry ''failure''
          [(''message'', AString (path_basename ext (spec_file test) @ '':''
              @ decimal (spec_line test) @ '':'' @ decimal (spec_column test)
              @ '' '' @ spec_title test)),
           (''type'', AString ''FAILURE'')]
          [] (Some (failure_text ext cfg test))]
     else [])"

definition output_entries :: "Test \<Rightarrow> XMLEntry list" where
  "output_entries test =
    (if skipped test then []
     else concat (map (\<lambda>result. map (\<lambda>x. XMLEntry ''system-out'' [] [] (Some x)) (stdout result)
                                  @ map (\<lambda>x. XMLEntry ''system-err'' [] [] (Some x)) (stderr result))
                      (results test)))"

definition testcase_of :: "externals \<Rightarrow> FullConfig \<Rightarrow> Test \<Rightarrow> XMLEntry" where
  "testcase_of ext cfg test =
    XMLEntry ''testcase''
      [(''name'', AString (spec_fullTitle test)),
       (''classname'', AString (path_relative ext (testDir cfg) (spec_file test)
                                @ '' '' @ spec_parent_fullTitle test)),
       (''time'', ANumber (of_int (total_duration test) / 1000))]
      (case_children ext cfg test) None"

text \<open>Reading an attribute of an element.\<close>

definition num_attr :: "string \<Rightarrow> XMLEntry \<Rightarrow> rat option" where
  "num_attr k e = (case map_of (xml_attributes e) k of Some (ANumber q) \<Rightarrow> Some q | _ \<Rightarrow> None)"

definition str_attr :: "string \<Rightarrow> XMLEntry \<Rightarrow> string option" where
  "str_attr k e = (case map_of (xml_attributes e) k of Some (AString x) \<Rightarrow> Some x | _ \<Rightarrow> None)"

definition sum_attr :: "string \<Rightarrow> XMLEntry list \<Rightarrow> rat" where
  "sum_attr k es = sum_list (map (\<lambda>e. case num_attr k e of Some q \<Rightarrow> q | None \<Rightarrow> 0) es)"

text \<open>
  One run of the reporter: constructed, \<open>onBegin\<close>, \<open>onEnd\<close>; and the root
  element of its report.
\<close>

definition junit_run ::
  "externals \<Rightarrow> (string \<Rightarrow> string option) \<Rightarrow> string option \<Rightarrow> bool option
     \<Rightarrow> FullConfig \<Rightarrow> Suite list \<Rightarrow> int \<Rightarrow> int \<Rightarrow> int
     \<Rightarrow> js_error + (junit_output \<times> JUnitReporter)" where
  "junit_run ext penv outFile strip cfg suite now started_at ended_at =
    junit_onEnd ext penv ended_at (junit_onBegin cfg suite now started_at (junit_new outFile strip))"

definition junit_out :: "js_error + (junit_output \<times> JUnitReporter) \<Rightarrow> junit_output option" where
  "junit_out res = (case res of Inl e \<Rightarrow> None | Inr (out, r) \<Rightarrow> Some out)"

text \<open>
  Reading the report as text: its lines, and how many of them begin with a given
  string, such as the start of an opening tag.
\<close>

definition starts :: "string \<Rightarrow> string \<Rightarrow> bool" where
  "starts p s = (take (length p) s = p)"

definition report_lines :: "string \<Rightarrow> string list" where
  "report_lines r = js_split [CHR 0x0A] r"

definition count_lines :: "string \<Rightarrow> string \<Rightarrow> nat" where
  "count_lines p r = length (filter (starts p) (report_lines r))"

text \<open>An element whose names and attribute keys, at every depth, have no \<open><\<close>.\<close>

fun tag_safe :: "XMLEntry \<Rightarrow> bool" where
  "tag_safe (XMLEntry n as cs txt) =
    (CHR ''<'' \<notin> set n \<and> list_all (\<lambda>kv. CHR ''<'' \<notin> set (fst kv)) as \<and> list_all tag_safe cs)"

text \<open>
  The scenario of \<open>render expected\<close>: two files with one passing test each. The
  library functions are instances that suit the scenario's paths.
\<close>

definition passing_test :: "string \<Rightarrow> string \<Rightarrow> Test" where
  "passing_test file title =
    \<lparr>spec_title = title, spec_fullTitle = title, spec_parent_fullTitle = [],
     spec_file = file, spec_line = 2, spec_column = 7, skipped = False, ok = True,
     results = [\<lparr>duration = 3, stdout = [], stderr = []\<rparr>], variation = []\<rparr>"

definition two_files :: "Suite list" where
  "two_files =
    [\<lparr>suite_file = ''/t/a.test.js'', suite_tests = [passing_test ''/t/a.test.js'' ''one'']\<rparr>,
     \<lparr>suite_file = ''/t/b.test.js'', suite_tests = [passing_test ''/t/b.test.js'' ''two'']\<rparr>]"

text \<open>
  \<open>String(x)\<close> for the numbers the reporter prints, counts and whole milliseconds
  divided by 1000: the integer part, then the thousandths without trailing zeros.
\<close>

definition show_thousandths :: "nat \<Rightarrow> string" where
  "show_thousandths k =
    decimal (k div 1000)
    @ (if k mod 1000 = 0 then []
       else ''.'' @ rev (dropWhile (\<lambda>c. c = CHR ''0'')
                          (rev [digitChar (k mod 1000 div 100), digitChar (k mod 100 div 10),
                                digitChar (k mod 10)])))"

definition scenario_lib :: externals where
  "scenario_lib =
    \<lparr>path_relative = (\<lambda>dir file. drop (length dir + 1) file),
     path_basename = (\<lambda>file. last (js_split ''/'' file)),
     failure_text = (\<lambda>cfg test. ''Error''),
     number_string = (\<lambda>q. if q < 0 then ''-'' @ show_thousandths (nat \<lfloor>- q * 1000\<rfloor>)
                           else show_thousandths (nat \<lfloor>q * 1000\<rfloor>))\<rparr>"

text \<open>
  The test of \<open>render stdout\<close>: it prints one line and fails.
\<close>

definition failing_with_output :: Test where
  "failing_with_output =
    \<lparr>spec_title = ''one'', spec_fullTitle = ''one'', spec_parent_fullTitle = [],
     spec_file = ''/t/a.test.ts'', spec_line = 7, spec_column = 7, skipped = False, ok = False,
     results = [\<lparr>duration = 3, stdout = [''Hello world''], stderr = []\<rparr>], variation = []\<rparr>"

section \<open>Service reporter (src/src/reporters/service.ts)\<close>

text \<open>
  \<open>getSasToken\<close> starts an HTTPS request and returns. The callback handed to
  \<open>request\<close> and its \<open>data\<close> listener run later, from the event loop, never
  before the function that registered them has returned. The model keeps the closure
  variables in a store and the requests whose events are still to come in a list:
  \<open>getSasToken\<close> allocates the cell of \<open>let sasToken\<close>, registers the request with
  the cell its listener assigns, and returns what the cell holds at the
  \<open>return\<close>. \<open>on_data\<close> is the listener run for a request, given the
  \<open>sasUri\<close> of the parsed body.
\<close>

record http_options =
  opt_hostname :: "string option"
  opt_path :: string
  opt_method :: string

record pending_request =
  pr_options :: http_options
  pr_cell :: nat

record js_world =
  cells :: "string option list"
  requests :: "pending_request list"

definition getSasToken ::
  "(string \<Rightarrow> string option) \<Rightarrow> string \<Rightarrow> js_world \<Rightarrow> string option \<times> js_world" where
  "getSasToken penv permission w =
    (let sasToken = length (cells w);
         w1 = w\<lparr>cells := cells w @ [None]\<rparr>;
         options = \<lparr>opt_hostname = penv ''ENDPOINT'',
                    opt_path = ''api/'' @ tpl (penv ''TENANT_ID'') @ ''/sasuri?runId=''
                               @ tpl (penv ''GITHUB_RUN_ID'') @ ''?op='' @ permission,
                    opt_method = ''GET''\<rparr>;
         w2 = w1\<lparr>requests := requests w1 @ [\<lparr>pr_options = options, pr_cell = sasToken\<rparr>]\<rparr>
     in (cells w2 ! sasToken, w2))"

definition on_data :: "nat \<Rightarrow> string option \<Rightarrow> js_world \<Rightarrow> js_world" where
  "on_data i sasUri w =
    (if i < length (requests w) then w\<lparr>cells := (cells w)[pr_cell (requests w ! i) := sasUri]\<rparr>
     else w)"

record ServiceReporter =
  sr_config :: "FullConfig option"
  sr_suite :: "Suite list option"
  readSasToken :: "string option"
  writeSasToken :: "string option"
  sr_startTime :: int
  blobServiceUrl :: "string option"
  containerName :: "string option"

definition service_new :: ServiceReporter where
  "service_new =
    \<lparr>sr_config = None, sr_suite = None, readSasToken = None, writeSasToken = None,
     sr_startTime = 0, blobServiceUrl = None, containerName = None\<rparr>"

definition service_onBegin ::
  "(string \<Rightarrow> string option) \<Rightarrow> FullConfig \<Rightarrow> Suite list \<Rightarrow> int
     \<Rightarrow> ServiceReporter \<times> js_world \<Rightarrow> ServiceReporter \<times> js_world" where
  "service_onBegin penv cfg suite monotonic rw =
    (let (r, w) = rw;
         (wtok, w1) = getSasToken penv ''Write'' w;
         (rtok, w2) = getSasToken penv ''Read'' w1
     in (r\<lparr>sr_config := Some cfg, sr_suite := Some suite,
           writeSasToken := wtok, readSasToken := rtok,
           sr_startTime := monotonic,
           blobServiceUrl := Some (tpl wtok),
           containerName := penv ''GITHUB_RUN_ID''\<rparr>, w2))"

text \<open>
  \<open>_getTestOutputDir\<close>. \<open>substring(0, n)\<close> takes the first \<open>n\<close> characters, none
  for a negative \<open>n\<close>; \<open>replace(' ', '-')\<close> has a string pattern.
\<close>

definition getTestOutputDir :: "externals \<Rightarrow> FullConfig \<Rightarrow> Test \<Rightarrow> string" where
  "getTestOutputDir ext cfg test =
    (let testFileName = path_relative ext (testDir cfg) (spec_file test)
     in outputDir cfg @ ''/'' @ take (length testFileName - 8) testFileName @ ''/''
        @ replace_first '' '' ''-'' (spec_fullTitle test) @ ''/''
        @ tpl (map_of (variation test) ''browserName''))"

text \<open>The slug the spec asks for: every space of the title becomes a dash.\<close>

definition slug_spec :: "string \<Rightarrow> string" where
  "slug_spec title = map (\<lambda>c. if c = CHR '' '' then CHR ''-'' else c) title"

text \<open>
  \<open>_getSasUriForBlob\<close>: \<open>this.readSasToken.split('?sv')\<close> raises when the token
  is \<open>undefined\<close>.
\<close>

definition getSasUriForBlob :: "ServiceReporter \<Rightarrow> string \<Rightarrow> js_error + string" where
  "getSasUriForBlob r filePath =
    (case readSasToken r of
       None \<Rightarrow> Inl TypeError
     | Some tok \<Rightarrow>
         (let splitted = js_split ''?sv'' tok
          in Inr (tpl (if 0 < length splitted then Some (splitted ! 0) else None) @ ''/''
                  @ filePath @ ''?sv''
                  @ tpl (if 1 < length splitted then Some (splitted ! 1) else None))))"

text \<open>
  \<open>_getTestResultBlobs\<close>: \<open>let testResultBlobs: string[];\<close> declares the variable
  without a value, so it holds \<open>undefined\<close> (\<open>None\<close>). In
  \<open>testResultBlobs.push(arg)\<close> the method is looked up on the variable's value
  before the argument is evaluated.
\<close>

definition array_push :: "'a list option \<Rightarrow> (js_error + 'a) \<Rightarrow> js_error + 'a list" where
  "array_push arr arg =
    (case arr of
       None \<Rightarrow> Inl TypeError
     | Some xs \<Rightarrow> (case arg of Inl e \<Rightarrow> Inl e | Inr x \<Rightarrow> Inr (xs @ [x])))"

definition getTestResultBlobs ::
  "(string \<Rightarrow> string option) \<Rightarrow> ServiceReporter \<Rightarrow> js_error + string list" where
  "getTestResultBlobs penv r =
    (let testResultBlobs = (None :: string list option)
     in array_push testResultBlobs
          (getSasUriForBlob r (tpl (penv ''GITHUB_RUN_ID'') @ ''/testResults.zip'')))"

section \<open>Exit codes and the shard option\<close>

text \<open>
  Claim C1. Whatever string the runner returns, the exit code of \<open>runTests\<close> is 130
  for \<open>sigint\<close>, 1 for \<open>forbid-only\<close>, \<open>no-tests\<close> and \<open>failed\<close>, and 0 for every
  other result (\<open>passed\<close> among them).
\<close>

theorem runTests_exit_code:
  "exit_code (runTests_exit result) =
     (if result = ''sigint'' then 130
      else if result \<in> {''forbid-only'', ''no-tests'', ''failed''} then 1
      else 0)"
  by (simp add: runTests_exit_def)

subsection \<open>Decimal numerals and \<open>parseInt\<close>\<close>





subsection \<open>Doubles that hold an integer exactly\<close>












subsection \<open>The shard filter by index\<close>








section \<open>JUnit report: structure\<close>

lemma push_child_last:
  "push_child (length es) c (es @ [XMLEntry n as cs txt]) = es @ [XMLEntry n as (cs @ [c]) txt]"
  by (simp add: push_child_def)

lemma foldl_snoc_map: "foldl (\<lambda>e x. e @ [f x]) es xs = es @ map f xs"
  by (induction xs arbitrary: es) simp_all

lemma push_output_eq:
  "push_output es result =
     es @ map (\<lambda>x. XMLEntry ''system-out'' [] [] (Some x)) (stdout result)
        @ map (\<lambda>x. XMLEntry ''system-err'' [] [] (Some x)) (stderr result)"
  by (simp add: push_output_def foldl_snoc_map)

lemma foldl_push_output:
  "foldl push_output es rs =
     es @ concat (map (\<lambda>result. map (\<lambda>x. XMLEntry ''system-out'' [] [] (Some x)) (stdout result)
                                @ map (\<lambda>x. XMLEntry ''system-err'' [] [] (Some x)) (stderr result))
                      rs)"
  by (induction rs arbitrary: es) (simp_all add: push_output_eq)

lemma addTestCase_eq:
  "addTestCase ext cfg test entries = entries @ testcase_of ext cfg test # output_entries test"
  by (simp add: addTestCase_def Let_def push_child_last foldl_push_output
      testcase_of_def case_children_def output_entries_def)

lemma visit_tests:
  "foldl (visit_test ext cfg) c tests =
     \<lparr>c_tests = c_tests c + length tests,
      c_skipped = c_skipped c + length (filter skipped tests),
      c_failures = c_failures c + length (filter (\<lambda>t. \<not> ok t) tests),
      c_duration = c_duration (foldl (visit_test ext cfg) c tests),
      c_children = c_children c
         @ concat (map (\<lambda>t. testcase_of ext cfg t # output_entries t) tests)\<rparr>"
proof (induction tests arbitrary: c)
  case Nil
  show ?case by simp
next
  case (Cons t ts)
  show ?case
    by (subst foldl_Cons, subst Cons.IH) (simp add: visit_test_def addTestCase_eq)
qed

lemma buildTestSuite_children:
  "xml_children (fst (buildTestSuite ext cfg r suite))
     = concat (map (\<lambda>t. testcase_of ext cfg t # output_entries t) (suite_tests suite))"
  by (simp add: buildTestSuite_def Let_def, subst visit_tests, simp)

lemma buildTestSuite_name: "xml_name (fst (buildTestSuite ext cfg r suite)) = ''testsuite''"
  by (simp add: buildTestSuite_def Let_def)

lemma output_entries_names:
  "set (map xml_name (output_entries t)) \<subseteq> {''system-out'', ''system-err''}"
  by (auto simp: output_entries_def)

lemma filter_testcases:
  "filter (\<lambda>c. xml_name c = ''testcase'')
      (concat (map (\<lambda>t. testcase_of ext cfg t # output_entries t) tests))
     = map (testcase_of ext cfg) tests"
proof (induction tests)
  case Nil
  show ?case by simp
next
  case (Cons t ts)
  have "filter (\<lambda>c. xml_name c = ''testcase'') (output_entries t) = []"
    using output_entries_names [of t] by (auto simp: filter_empty_conv)
  with Cons show ?case
    by (simp add: testcase_of_def)
qed

lemma filter_outputs:
  "filter (\<lambda>c. xml_name c \<noteq> ''testcase'')
      (concat (map (\<lambda>t. testcase_of ext cfg t # output_entries t) tests))
     = concat (map output_entries tests)"
proof (induction tests)
  case Nil
  show ?case by simp
next
  case (Cons t ts)
  have "filter (\<lambda>c. xml_name c \<noteq> ''testcase'') (output_entries t) = output_entries t"
    using output_entries_names [of t] by (auto simp: filter_id_conv)
  with Cons show ?case
    by (simp add: testcase_of_def)
qed

text \<open>
  Claim C10. \<open>_addTestCase\<close> appends to the list it is given (the children of the
  \<open>testsuite\<close>) the \<open>testcase\<close> and, after it, the \<open>system-out\<close> and
  \<open>system-err\<close> elements of the test's results; the children of a \<open>testcase\<close>
  are named \<open>skipped\<close> or \<open>failure\<close> only. In a \<open>testsuite\<close>, the children that
  are not \<open>testcase\<close>s are exactly the output elements of its tests. A skipped test's
  \<open>testcase\<close> has the one child \<open>skipped\<close>, whatever \<open>ok()\<close> says.
\<close>

theorem output_is_sibling_of_testcase:
  "addTestCase ext cfg test entries = entries @ testcase_of ext cfg test # output_entries test
   \<and> xml_name (testcase_of ext cfg test) = ''testcase''
   \<and> set (map xml_name (xml_children (testcase_of ext cfg test))) \<subseteq> {''skipped'', ''failure''}
   \<and> set (map xml_name (output_entries test)) \<subseteq> {''system-out'', ''system-err''}
   \<and> filter (\<lambda>c. xml_name c \<noteq> ''testcase'') (xml_children (fst (buildTestSuite ext cfg r suite)))
       = concat (map output_entries (suite_tests suite))
   \<and> map xml_children
        (filter (\<lambda>c. xml_name c = ''testcase'') (xml_children (fst (buildTestSuite ext cfg r suite))))
       = map (case_children ext cfg) (suite_tests suite)
   \<and> xml_children (testcase_of ext cfg (test\<lparr>skipped := True\<rparr>)) = [XMLEntry ''skipped'' [] [] None]"
proof -
  have kids: "set (map xml_name (xml_children (testcase_of ext cfg test)))
                \<subseteq> {''skipped'', ''failure''}"
    by (auto simp: testcase_of_def case_children_def)
  have outs: "filter (\<lambda>c. xml_name c \<noteq> ''testcase'')
                (xml_children (fst (buildTestSuite ext cfg r suite)))
       = concat (map output_entries (suite_tests suite))"
    by (simp add: buildTestSuite_children filter_outputs)
  have cases: "map xml_children
        (filter (\<lambda>c. xml_name c = ''testcase'') (xml_children (fst (buildTestSuite ext cfg r suite))))
       = map (case_children ext cfg) (suite_tests suite)"
  proof -
    have "map xml_children (map (testcase_of ext cfg) (suite_tests suite))
            = map (case_children ext cfg) (suite_tests suite)"
      by (simp add: testcase_of_def comp_def)
    then show ?thesis
      by (simp only: buildTestSuite_children filter_testcases)
  qed
  have skip: "xml_children (testcase_of ext cfg (test\<lparr>skipped := True\<rparr>))
                = [XMLEntry ''skipped'' [] [] None]"
    by (simp add: testcase_of_def case_children_def)
  have nm: "xml_name (testcase_of ext cfg test) = ''testcase''"
    by (simp add: testcase_of_def)
  show ?thesis
    by (intro conjI addTestCase_eq nm kids output_entries_names outs cases skip)
qed


theorem output_is_sibling_of_testcase_witness:
  "map xml_name (addTestCase scenario_lib \<lparr>testDir = ''/t'', outputDir = ''o''\<rparr>
                   failing_with_output [])
     = [''testcase'', ''system-out'']
   \<and> map (\<lambda>e. map xml_name (xml_children e))
         (addTestCase scenario_lib \<lparr>testDir = ''/t'', outputDir = ''o''\<rparr> failing_with_output [])
     = [[''failure''], []]
   \<and> xml_children (testcase_of scenario_lib \<lparr>testDir = ''/t'', outputDir = ''o''\<rparr>
                     (failing_with_output\<lparr>skipped := True\<rparr>))
     = [XMLEntry ''skipped'' [] [] None]"
  using output_is_sibling_of_testcase [of scenario_lib "\<lparr>testDir = ''/t'', outputDir = ''o''\<rparr>"
      failing_with_output "[]"]
  by (simp add: testcase_of_def case_children_def output_entries_def failing_with_output_def)

section \<open>Escaping\<close>

lemma entity_clean: "filter (\<lambda>c. \<not> discouraged c) (entity c) = entity c"
  by (simp add: entity_def discouraged_def)

lemma escape_attribute: "escape t False False = concat (map attribute_char t)"
proof -
  have "filter (\<lambda>c. \<not> discouraged c)
          (concat (map (\<lambda>c. if escapeRe False c then entity c else [c]) t))
        = concat (map attribute_char t)"
    by (induction t) (auto simp: escapeRe_def attribute_char_def entity_clean)
  then show ?thesis
    by (simp add: escape_def)
qed

lemma replace_cdata_end_other:
  "c \<noteq> CHR '']'' \<Longrightarrow> replace_cdata_end (c # s) = c # replace_cdata_end s"
  by simp

lemma replace_cdata_end_entity:
  "c \<in> {CHR ''&'', CHR ''<''} \<Longrightarrow>
   replace_cdata_end (entity c @ s) = entity c @ replace_cdata_end s"
  by (auto simp: entity_def)

lemma cdata_lookahead:
  fixes s :: string
  defines "e \<equiv> (\<lambda>c. if escapeRe True c then entity c else [c])"
  shows "(take 2 (concat (map e s)) = '']>'') = (take 2 s = '']>'')"
    and "take 2 s = '']>'' \<Longrightarrow> drop 2 (concat (map e s)) = concat (map e (drop 2 s))"
proof -
  show "(take 2 (concat (map e s)) = '']>'') = (take 2 s = '']>'')"
  proof (cases s)
    case Nil
    then show ?thesis by simp
  next
    case (Cons a s')
    show ?thesis
    proof (cases s')
      case Nil
      with Cons show ?thesis
        by (auto simp: e_def escapeRe_def entity_def)
    next
      case (Cons b s'')
      with \<open>s = a # s'\<close> show ?thesis
        by (auto simp: e_def escapeRe_def entity_def)
    qed
  qed
  show "take 2 s = '']>'' \<Longrightarrow> drop 2 (concat (map e s)) = concat (map e (drop 2 s))"
  proof -
    assume h: "take 2 s = '']>''"
    then obtain r where s: "s = CHR '']'' # CHR ''>'' # r"
      by (cases s; cases "tl s") (auto split: if_splits)
    show ?thesis
      unfolding s by (simp add: e_def escapeRe_def)
  qed
qed

lemma escape_chardata_scan:
  "replace_cdata_end (concat (map (\<lambda>c. if escapeRe True c then entity c else [c]) t))
     = chardata_scan t"
proof (induction t rule: chardata_scan.induct)
  case 1
  show ?case by simp
next
  case (2 c s)
  let ?e = "\<lambda>c. if escapeRe True c then entity c else [c]"
  show ?case
  proof (cases "c = CHR '']'' \<and> take 2 s = '']>''")
    case True
    then have ec: "?e c = [c]" by (simp add: escapeRe_def)
    have nr: "\<not> escapeRe True (CHR '']'')" by (simp add: escapeRe_def)
    from True have "replace_cdata_end (concat (map ?e (c # s)))
        = '']]&gt;'' @ replace_cdata_end (drop 2 (concat (map ?e s)))"
      by (simp add: nr cdata_lookahead(1))
    also have "\<dots> = '']]&gt;'' @ chardata_scan (drop 2 s)"
      using True "2.IH"(1) by (simp add: cdata_lookahead(2))
    finally show ?thesis
      using True by simp
  next
    case False
    note IH = "2.IH"(2) [OF False]
    show ?thesis
    proof (cases "c \<in> {CHR ''&'', CHR ''<''}")
      case True
      then have ec: "?e c = entity c" by (auto simp: escapeRe_def)
      have b: "concat (map ?e (c # s)) = entity c @ concat (map ?e s)"
        by (simp add: ec)
      have d: "chardata_scan (c # s) = entity c @ chardata_scan s"
        using True by auto
      show ?thesis
        unfolding b d replace_cdata_end_entity [OF True] IH ..
    next
      case other: False
      then have ec: "?e c = [c]" by (simp add: escapeRe_def)
      have a: "replace_cdata_end (c # concat (map ?e s))
                 = c # replace_cdata_end (concat (map ?e s))"
        using False by (cases "c = CHR '']''") (simp_all add: cdata_lookahead(1))
      have b: "concat (map ?e (c # s)) = c # concat (map ?e s)"
        by (simp add: ec)
      have d: "chardata_scan (c # s) = c # chardata_scan s"
        using other False by auto
      show ?thesis
        unfolding b a d IH ..
    qed
  qed
qed

lemma escape_chardata:
  "escape t False True = filter (\<lambda>c. \<not> discouraged c) (chardata_scan t)"
  by (simp add: escape_def escape_chardata_scan)

lemma chardata_scan_no_lt: "CHR ''<'' \<notin> set (chardata_scan t)"
  by (induction t rule: chardata_scan.induct) (auto simp: entity_def)

lemma attribute_no_lt: "CHR ''<'' \<notin> set (concat (map attribute_char t))"
  by (induction t) (auto simp: attribute_char_def entity_def)

lemma escape_strip_first:
  "escape t True cd = escape (remove_matches ansiControlSequence t) False cd"
  by (simp add: escape_def)

lemma escape_no_lt: "CHR ''<'' \<notin> set (escape t strip cd)"
proof -
  have "CHR ''<'' \<notin> set (escape u False cd)" for u
  proof (cases cd)
    case True
    then show ?thesis
      using chardata_scan_no_lt [of u] by (simp add: escape_chardata)
  next
    case False
    then show ?thesis
      using attribute_no_lt [of u] by (simp add: escape_attribute del: set_concat)
  qed
  then show ?thesis
    by (cases strip) (simp_all add: escape_strip_first)
qed

lemma escape_no_discouraged: "c \<in> set (escape t strip cd) \<Longrightarrow> \<not> discouraged c"
  by (simp add: escape_def Let_def)


lemma forbidden_discouraged: "xml_forbidden c \<Longrightarrow> c \<noteq> CHR 0x00 \<Longrightarrow> discouraged c"
proof -
  assume f: "xml_forbidden c" and z: "c \<noteq> CHR 0x00"
  have "(of_char c :: nat) \<noteq> 0"
  proof
    assume "(of_char c :: nat) = 0"
    then have "(of_char c :: nat) = of_char (CHR 0x00)" by simp
    then have "c = CHR 0x00" by (simp only: of_char_eq_iff)
    with z show False by simp
  qed
  with f show ?thesis
    unfolding xml_forbidden_def discouraged_def Let_def by auto
qed

lemma serializeXML_render:
  "serializeXML ext e toks strip = toks @ render ext strip e"
proof (induction e arbitrary: toks)
  case (XMLEntry n attrs cs content)
  have kids: "foldl (\<lambda>t c. serializeXML ext c t strip) t1 cs
                = t1 @ concat (map (render ext strip) cs)" for t1
    using XMLEntry.IH
  proof (induction cs arbitrary: t1)
    case Nil
    show ?case by simp
  next
    case (Cons c cs)
    have "serializeXML ext c t1 strip = t1 @ render ext strip c"
      by (rule Cons.prems) simp
    moreover have "foldl (\<lambda>t c. serializeXML ext c t strip) t2 cs
                     = t2 @ concat (map (render ext strip) cs)" for t2
      by (rule Cons.IH) (simp add: Cons.prems)
    ultimately show ?case by simp
  qed
  show ?case
    by (simp add: Let_def kids open_tag_def text_tokens_def split: option.splits)
qed

text \<open>
  Claim C6, as amended. An attribute value is escaped one character at a time: each of
  \<open>&\<close>, \<open><\<close>, \<open>>\<close> and the double quote becomes its entity and the control
  characters of the source's list are dropped. Character data is escaped by its own
  rule: \<open>&\<close> and \<open><\<close> become entities, \<open>>\<close> only where it closes \<open>]]>\<close>,
  the double quote stays, and the same control characters are dropped. With
  \<open>stripANSIControlSequences\<close> the ANSI sequences are removed first. In both modes
  the result has no \<open><\<close>, none of the listed control characters and so no
  XML-forbidden control code other than U+0000. \<open>serializeXML\<close>, for every element
  and at every depth, escapes the attribute values in the first mode and the texts in
  the second, with the one setting.
\<close>

theorem escape_by_mode:
  "escape t False False = concat (map attribute_char t)
   \<and> escape t False True = filter (\<lambda>c. \<not> discouraged c) (chardata_scan t)
   \<and> escape t True cd = escape (remove_matches ansiControlSequence t) False cd
   \<and> (\<forall>c \<in> set (escape t strip cd). \<not> discouraged c \<and> (xml_forbidden c \<longrightarrow> c = CHR 0x00))
   \<and> CHR ''<'' \<notin> set (escape t strip cd)
   \<and> serializeXML ext e tokens strip = tokens @ render ext strip e"
  using escape_attribute escape_chardata escape_strip_first escape_no_discouraged escape_no_lt
    serializeXML_render forbidden_discouraged
  by blast

lemma remove_ansi_yellow:
  "remove_matches ansiControlSequence yellow_hello = ''Hello world <b> & ]]>''"
  by code_simp

theorem escape_by_mode_witness:
  "escape yellow_hello True True = ''Hello world &lt;b> &amp; ]]&gt;''
   \<and> escape yellow_hello True False = ''Hello world &lt;b&gt; &amp; ]]&gt;''
   \<and> serializeXML scenario_lib
         (XMLEntry ''testcase'' [(''name'', AString (''a<b '' @ [CHR 0x22]))]
            [XMLEntry ''system-out'' [] [] (Some yellow_hello)] None)
         [''<testsuite>''] True
       = [''<testsuite>'', ''<testcase name='' @ [CHR 0x22] @ ''a&lt;b &quot;'' @ [CHR 0x22] @ ''>'',
          ''<system-out>'', ''Hello world &lt;b> &amp; ]]&gt;'', ''</system-out>'',
          ''</testcase>'']"
proof -
  have e1: "escape ''Hello world <b> & ]]>'' False True = ''Hello world &lt;b> &amp; ]]&gt;''"
    by (simp add: escape_def escapeRe_def entity_def discouraged_def)
  have e2: "escape ''Hello world <b> & ]]>'' False False = ''Hello world &lt;b&gt; &amp; ]]&gt;''"
    by (simp add: escape_def escapeRe_def entity_def discouraged_def)
  have e3: "escape (''a<b '' @ [CHR 0x22]) False False = ''a&lt;b &quot;''"
    by (simp add: escape_def escapeRe_def entity_def discouraged_def)
  have na: "remove_matches ansiControlSequence (''a<b '' @ [CHR 0x22]) = ''a<b '' @ [CHR 0x22]"
    by code_simp
  have ne: "yellow_hello \<noteq> []"
    by (simp add: yellow_hello_def)
  let ?e = "XMLEntry ''testcase'' [(''name'', AString (''a<b '' @ [CHR 0x22]))]
            [XMLEntry ''system-out'' [] [] (Some yellow_hello)] None"
  note t1 = escape_by_mode [of yellow_hello True True scenario_lib ?e "[''<testsuite>'']"]
  note t2 = escape_by_mode [of yellow_hello False True scenario_lib ?e "[''<testsuite>'']"]
  note t3 = escape_by_mode [of "''a<b '' @ [CHR 0x22]" False True scenario_lib ?e "[''<testsuite>'']"]
  from t1 have "escape yellow_hello True True
      = escape (remove_matches ansiControlSequence yellow_hello) False True"
    by blast
  then have a: "escape yellow_hello True True = ''Hello world &lt;b> &amp; ]]&gt;''"
    by (simp only: remove_ansi_yellow e1)
  from t2 have "escape yellow_hello True False
      = escape (remove_matches ansiControlSequence yellow_hello) False False"
    by blast
  then have b: "escape yellow_hello True False = ''Hello world &lt;b&gt; &amp; ]]&gt;''"
    by (simp only: remove_ansi_yellow e2)
  from t3 have "escape (''a<b '' @ [CHR 0x22]) True False
      = escape (remove_matches ansiControlSequence (''a<b '' @ [CHR 0x22])) False False"
    by blast
  then have v: "escape (''a<b '' @ [CHR 0x22]) True False = ''a&lt;b &quot;''"
    by (simp only: na e3)
  from t1 have "serializeXML scenario_lib ?e [''<testsuite>''] True
      = [''<testsuite>''] @ render scenario_lib True ?e"
    by blast
  then have c: "serializeXML scenario_lib ?e [''<testsuite>''] True
       = [''<testsuite>'', ''<testcase name='' @ [CHR 0x22] @ ''a&lt;b &quot;'' @ [CHR 0x22] @ ''>'',
          ''<system-out>'', ''Hello world &lt;b> &amp; ]]&gt;'', ''</system-out>'',
          ''</testcase>'']"
    using v a ne by (simp add: open_tag_def text_tokens_def js_String_def del: serializeXML.simps)
  show ?thesis
    by (intro conjI a b c)
qed

text \<open>
  The claim as stated fails in two places. In character data \<open>>\<close> and the double
  quote are left as they are, while an attribute value has them replaced. And the
  XML-forbidden control code U+0000 is not in the source's list, so it is left in.
\<close>

theorem escape_by_mode_counterexample:
  "escape (''1 > 0 '' @ [CHR 0x22]) False True = ''1 > 0 '' @ [CHR 0x22]
   \<and> escape_spec (''1 > 0 '' @ [CHR 0x22]) = ''1 &gt; 0 &quot;''
   \<and> escape (''1 > 0 '' @ [CHR 0x22]) False False = ''1 &gt; 0 &quot;''
   \<and> escape [CHR ''a'', CHR 0x00, CHR ''b''] False False = [CHR ''a'', CHR 0x00, CHR ''b'']
   \<and> escape [CHR ''a'', CHR 0x00, CHR ''b''] False True = [CHR ''a'', CHR 0x00, CHR ''b'']
   \<and> escape_spec [CHR ''a'', CHR 0x00, CHR ''b''] = ''ab''"
  by (simp add: escape_def escapeRe_def entity_def discouraged_def escape_spec_def
      escape_spec_char_def xml_forbidden_def)

section \<open>JUnit report: the text\<close>

subsection \<open>Lines of a joined list of tokens\<close>

lemma split_at_nonempty: "split_at sep s \<noteq> []"
  by (induction sep s rule: split_at.induct) (auto split: list.splits)

lemma split_at_append:
  "split_at [c] (a @ c # b) = split_at [c] a @ split_at [c] b"
proof (induction a)
  case Nil
  show ?case by simp
next
  case (Cons x a)
  obtain p ps where s: "split_at [c] a = p # ps"
    using split_at_nonempty [of "[c]" a] by (cases "split_at [c] a") auto
  show ?case
    using Cons s by (cases "x = c") simp_all
qed

lemma split_at_chars: "l \<in> set (split_at [c] s) \<Longrightarrow> set l \<subseteq> set s"
proof (induction s arbitrary: l)
  case Nil
  then show ?case by simp
next
  case (Cons x s)
  obtain p ps where sp: "split_at [c] s = p # ps"
    using split_at_nonempty [of "[c]" s] by (cases "split_at [c] s") auto
  have ih: "set m \<subseteq> set s" if "m \<in> set (p # ps)" for m
    using Cons.IH [of m] that sp by simp
  show ?case
  proof (cases "x = c")
    case True
    with Cons.prems sp have "l = [] \<or> l \<in> set (p # ps)" by simp
    with ih show ?thesis by auto
  next
    case False
    with Cons.prems sp have "l = x # p \<or> l \<in> set ps" by simp
    with ih [of p] ih [of l] show ?thesis by auto
  qed
qed

lemma split_at_hd: "hd (split_at [c] s) = takeWhile (\<lambda>x. x \<noteq> c) s"
proof (induction s)
  case Nil
  show ?case by simp
next
  case (Cons x s)
  obtain p ps where sp: "split_at [c] s = p # ps"
    using split_at_nonempty [of "[c]" s] by (cases "split_at [c] s") auto
  with Cons show ?case by simp
qed

lemma starts_in: "starts (x # p) s \<Longrightarrow> x \<in> set s"
  by (cases s) (auto simp: starts_def)

lemma starts_takeWhile:
  "c \<notin> set p \<Longrightarrow> starts p (takeWhile (\<lambda>x. x \<noteq> c) s) = starts p s"
proof (induction s arbitrary: p)
  case Nil
  show ?case by simp
next
  case (Cons y s)
  show ?case
  proof (cases p)
    case Nil
    then show ?thesis by (simp add: starts_def)
  next
    case (Cons a q)
    with Cons.prems have "a \<noteq> c" "c \<notin> set q" by auto
    with Cons.IH [of q] Cons show ?thesis
      by (auto simp: starts_def)
  qed
qed

lemma no_start_without: "x \<notin> set s \<Longrightarrow> filter (starts (x # p)) (split_at [c] s) = []"
proof -
  assume h: "x \<notin> set s"
  have "\<not> starts (x # p) l" if "l \<in> set (split_at [c] s)" for l
  proof
    assume "starts (x # p) l"
    then have "x \<in> set l" by (rule starts_in)
    with split_at_chars [OF that] h show False by auto
  qed
  then show ?thesis by (simp add: filter_empty_conv)
qed

lemma token_lines:
  assumes "x \<notin> set (tl t)" and "c \<notin> set (x # p)"
  shows "length (filter (starts (x # p)) (split_at [c] t)) = (if starts (x # p) t then 1 else 0)"
proof (cases t)
  case Nil
  then show ?thesis by (simp add: starts_def)
next
  case (Cons y s)
  with assms(1) have xs: "x \<notin> set s" by simp
  obtain l ls where sp: "split_at [c] s = l # ls"
    using split_at_nonempty [of "[c]" s] by (cases "split_at [c] s") auto
  have rest: "filter (starts (x # p)) (split_at [c] s) = []"
    using xs by (rule no_start_without)
  show ?thesis
  proof (cases "y = c")
    case True
    with assms(2) have "y \<noteq> x" by auto
    then have "\<not> starts (x # p) (y # s)" by (auto simp: starts_def)
    moreover have "\<not> starts (x # p) []" by (simp add: starts_def)
    ultimately show ?thesis
      using True Cons rest by simp
  next
    case False
    have hd: "y # l = takeWhile (\<lambda>z. z \<noteq> c) (y # s)"
      using split_at_hd [of c s] sp False by simp
    have "starts (x # p) (y # l) = starts (x # p) (y # s)"
      unfolding hd using assms(2) by (intro starts_takeWhile) simp
    moreover have "filter (starts (x # p)) ls = []"
      using rest sp by (auto split: if_splits)
    ultimately show ?thesis
      using False Cons sp by simp
  qed
qed

lemma joined_lines:
  assumes "ts \<noteq> []" and "\<forall>t \<in> set ts. x \<notin> set (tl t)" and "c \<notin> set (x # p)"
  shows "length (filter (starts (x # p)) (split_at [c] (join [c] ts)))
           = length (filter (starts (x # p)) ts)"
  using assms(1,2)
proof (induction "[c]" ts rule: join.induct)
  case 1
  then show ?case by simp
next
  case (2 t)
  then show ?case
    using token_lines [OF _ assms(3), of t] by simp
next
  case (3 t u us)
  have "split_at [c] (join [c] (t # u # us)) = split_at [c] t @ split_at [c] (join [c] (u # us))"
    using split_at_append [of c t "join [c] (u # us)"] by simp
  moreover have "length (filter (starts (x # p)) (split_at [c] (join [c] (u # us))))
                   = length (filter (starts (x # p)) (u # us))"
    using 3 by simp
  moreover have "length (filter (starts (x # p)) (split_at [c] t)) = (if starts (x # p) t then 1 else 0)"
    using 3 token_lines [OF _ assms(3), of t] by simp
  ultimately show ?case by simp
qed


subsection \<open>Tokens of an element\<close>

lemma join_chars: "set (join sep xs) \<subseteq> set sep \<union> \<Union> (set ` set xs)"
  by (induction sep xs rule: join.induct) auto

lemma join_elem:
  "c \<in> set (join sep xs) \<Longrightarrow> c \<notin> set sep \<Longrightarrow> \<exists>x \<in> set xs. c \<in> set x"
  using join_chars [of sep xs] by auto

lemma open_tag_tail:
  assumes "CHR ''<'' \<notin> set n" and "list_all (\<lambda>kv. CHR ''<'' \<notin> set (fst kv)) attrs"
  shows "CHR ''<'' \<notin> set (tl (open_tag ext strip n attrs))"
proof -
  have "CHR ''<'' \<notin> set a"
    if "a \<in> set (map (\<lambda>(k, v). k @ [CHR ''='', CHR 0x22]
                         @ escape (js_String ext v) strip False @ [CHR 0x22]) attrs)" for a
  proof -
    from that obtain k v where kv: "(k, v) \<in> set attrs"
      and a: "a = k @ [CHR ''='', CHR 0x22] @ escape (js_String ext v) strip False @ [CHR 0x22]"
      by auto
    from assms(2) kv have "CHR ''<'' \<notin> set k"
      by (auto simp: list_all_iff)
    then show ?thesis
      unfolding a using escape_no_lt [of "js_String ext v" strip False] by simp
  qed
  moreover have "CHR ''<'' \<notin> set '' ''"
    by simp
  ultimately have "CHR ''<'' \<notin> set (join '' '' (map (\<lambda>(k, v). k @ [CHR ''='', CHR 0x22]
                         @ escape (js_String ext v) strip False @ [CHR 0x22]) attrs))"
    using join_elem [of "CHR ''<''" "'' ''" "map (\<lambda>(k, v). k @ [CHR ''='', CHR 0x22]
                         @ escape (js_String ext v) strip False @ [CHR 0x22]) attrs"]
    by blast
  with assms(1) show ?thesis
    by (simp add: open_tag_def)
qed

lemma text_tokens_tail: "t \<in> set (text_tokens strip content) \<Longrightarrow> CHR ''<'' \<notin> set t"
  by (auto simp: text_tokens_def escape_no_lt split: option.splits if_splits)

lemma render_tails:
  "tag_safe e \<Longrightarrow> t \<in> set (render ext strip e) \<Longrightarrow> CHR ''<'' \<notin> set (tl t)"
proof (induction e arbitrary: t)
  case (XMLEntry n attrs cs content)
  from XMLEntry.prems(1) have n: "CHR ''<'' \<notin> set n"
    and a: "list_all (\<lambda>kv. CHR ''<'' \<notin> set (fst kv)) attrs"
    and k: "\<And>c. c \<in> set cs \<Longrightarrow> tag_safe c"
    by (auto simp: list_all_iff)
  from XMLEntry.prems(2) consider
      "t = open_tag ext strip n attrs"
    | c where "c \<in> set cs" "t \<in> set (render ext strip c)"
    | "t \<in> set (text_tokens strip content)"
    | "t = ''</'' @ n @ ''>''"
    by auto
  then show ?case
  proof cases
    case 1
    then show ?thesis using open_tag_tail [OF n a] by simp
  next
    case 2
    then show ?thesis using XMLEntry.IH k by blast
  next
    case 3
    then have "CHR ''<'' \<notin> set t" by (rule text_tokens_tail)
    then show ?thesis by (cases t) auto
  next
    case 4
    then show ?thesis using n by simp
  qed
qed

lemma render_nonempty: "render ext strip e \<noteq> []"
  by (cases e) simp

lemma report_line_count:
  assumes "tag_safe e" and "CHR 0x0A \<notin> set p"
  shows "count_lines (CHR ''<'' # p) (join [CHR 0x0A] (render ext strip e))
           = length (filter (starts (CHR ''<'' # p)) (render ext strip e))"
proof -
  have "\<forall>t \<in> set (render ext strip e). CHR ''<'' \<notin> set (tl t)"
    using render_tails [OF assms(1)] by blast
  moreover have "CHR 0x0A \<notin> set (CHR ''<'' # p)"
    using assms(2) by simp
  ultimately show ?thesis
    unfolding count_lines_def report_lines_def js_split_def
    using joined_lines [OF render_nonempty, of ext strip e "CHR ''<''" "CHR 0x0A" p]
    by simp
qed


subsection \<open>Opening tags in the report\<close>

lemma tag_safe_sel:
  "tag_safe e = (CHR ''<'' \<notin> set (xml_name e)
                 \<and> list_all (\<lambda>kv. CHR ''<'' \<notin> set (fst kv)) (xml_attributes e)
                 \<and> list_all tag_safe (xml_children e))"
  by (cases e) simp

lemma output_entry_form:
  "e \<in> set (output_entries t) \<Longrightarrow>
   \<exists>n x. (n = ''system-out'' \<or> n = ''system-err'') \<and> e = XMLEntry n [] [] (Some x)"
  by (auto simp: output_entries_def split: if_splits)

lemma case_child_form:
  "e \<in> set (case_children ext cfg t) \<Longrightarrow>
   \<exists>n attrs x. (n = ''skipped'' \<or> n = ''failure'')
      \<and> list_all (\<lambda>kv. CHR ''<'' \<notin> set (fst kv)) attrs \<and> e = XMLEntry n attrs [] x"
  by (auto simp: case_children_def split: if_splits)

lemma tag_safe_testcase: "tag_safe (testcase_of ext cfg t)"
proof -
  have "tag_safe e" if "e \<in> set (case_children ext cfg t)" for e
    using case_child_form [OF that] by auto
  then show ?thesis
    by (simp add: testcase_of_def list_all_iff)
qed

lemma tag_safe_output: "e \<in> set (output_entries t) \<Longrightarrow> tag_safe e"
  using output_entry_form [of e t] by auto

lemma tag_safe_suite: "tag_safe (fst (buildTestSuite ext cfg r s))"
proof -
  have "list_all (\<lambda>kv. CHR ''<'' \<notin> set (fst kv)) (xml_attributes (fst (buildTestSuite ext cfg r s)))"
    by (simp add: buildTestSuite_def Let_def)
  moreover have "list_all tag_safe (xml_children (fst (buildTestSuite ext cfg r s)))"
    unfolding buildTestSuite_children
    using tag_safe_testcase tag_safe_output by (auto simp: list_all_iff)
  ultimately show ?thesis
    by (subst tag_safe_sel) (simp add: buildTestSuite_name)
qed

lemma starts_prefix: "starts (p @ q) x \<Longrightarrow> starts p x"
proof -
  assume "starts (p @ q) x"
  then have "take (length p) (take (length (p @ q)) x) = take (length p) (p @ q)"
    by (simp add: starts_def)
  then show ?thesis
    by (simp add: starts_def min_def)
qed

lemma starts_same_length: "starts p x \<Longrightarrow> starts q x \<Longrightarrow> length p = length q \<Longrightarrow> p = q"
  unfolding starts_def by metis

lemma no_test_open:
  "n = ''skipped'' \<or> n = ''failure'' \<or> n = ''system-out'' \<or> n = ''system-err'' \<Longrightarrow>
   \<not> starts (''<test'' @ q) (open_tag ext strip n attrs)"
proof
  assume n: "n = ''skipped'' \<or> n = ''failure'' \<or> n = ''system-out'' \<or> n = ''system-err''"
    and "starts (''<test'' @ q) (open_tag ext strip n attrs)"
  then have "starts ''<t'' (open_tag ext strip n attrs)"
    using starts_prefix [of "''<t''" "''est'' @ q"] by simp
  with n show False
    by (elim disjE) (simp_all add: starts_def open_tag_def)
qed

lemma no_test_close: "\<not> starts (''<test'' @ q) (''</'' @ n @ ''>'')"
proof
  assume "starts (''<test'' @ q) (''</'' @ n @ ''>'')"
  then have "starts ''<t'' (''</'' @ n @ ''>'')"
    using starts_prefix [of "''<t''" "''est'' @ q"] by simp
  then show False
    by (simp add: starts_def)
qed

lemma no_test_text: "t \<in> set (text_tokens strip content) \<Longrightarrow> \<not> starts (''<test'' @ q) t"
proof
  assume "t \<in> set (text_tokens strip content)" and "starts (''<test'' @ q) t"
  then have "CHR ''<'' \<notin> set t" and "CHR ''<'' \<in> set t"
    using text_tokens_tail [of t strip content] starts_in [of "CHR ''<''" "''test'' @ q" t]
    by simp_all
  then show False by simp
qed

lemma render_leaf:
  assumes "n = ''skipped'' \<or> n = ''failure'' \<or> n = ''system-out'' \<or> n = ''system-err''"
  shows "filter (starts (''<test'' @ q)) (render ext strip (XMLEntry n attrs [] content)) = []"
proof -
  have "\<not> starts (''<test'' @ q) t"
    if "t \<in> set (render ext strip (XMLEntry n attrs [] content))" for t
  proof -
    from that consider "t = open_tag ext strip n attrs" | "t \<in> set (text_tokens strip content)"
      | "t = ''</'' @ n @ ''>''"
      by auto
    then show ?thesis
    proof cases
      case 1
      then show ?thesis using no_test_open [OF assms] by simp
    next
      case 2
      then show ?thesis by (rule no_test_text)
    next
      case 3
      then show ?thesis using no_test_close [of q n] by simp
    qed
  qed
  then show ?thesis
    unfolding filter_empty_conv by blast
qed

lemma render_leaves:
  assumes "\<And>e. e \<in> set es \<Longrightarrow>
      \<exists>n attrs x. (n = ''skipped'' \<or> n = ''failure'' \<or> n = ''system-out'' \<or> n = ''system-err'')
        \<and> e = XMLEntry n attrs [] x"
  shows "filter (starts (''<test'' @ q)) (concat (map (render ext strip) es)) = []"
proof -
  have "filter (starts (''<test'' @ q)) (render ext strip e) = []" if "e \<in> set es" for e
  proof -
    from assms [OF that] obtain n attrs x
      where n: "n = ''skipped'' \<or> n = ''failure'' \<or> n = ''system-out'' \<or> n = ''system-err''"
        and e: "e = XMLEntry n attrs [] x"
      by blast
    show ?thesis
      unfolding e by (rule render_leaf [OF n])
  qed
  then show ?thesis
    by (induction es) simp_all
qed

lemma render_outputs:
  "filter (starts (''<test'' @ q)) (concat (map (render ext strip) (output_entries t))) = []"
proof (rule render_leaves)
  fix e
  assume "e \<in> set (output_entries t)"
  from output_entry_form [OF this] obtain n x
    where n: "n = ''system-out'' \<or> n = ''system-err''" and e: "e = XMLEntry n [] [] (Some x)"
    by (elim exE conjE)
  from n have "n = ''skipped'' \<or> n = ''failure'' \<or> n = ''system-out'' \<or> n = ''system-err''"
    by (elim disjE) (simp_all only: simp_thms)
  with e show "\<exists>n attrs x. (n = ''skipped'' \<or> n = ''failure'' \<or> n = ''system-out''
      \<or> n = ''system-err'') \<and> e = XMLEntry n attrs [] x"
    by (intro exI [of _ n] exI [of _ "[]"] exI [of _ "Some x"] conjI)
qed

lemma render_case_children:
  "filter (starts (''<test'' @ q)) (concat (map (render ext strip) (case_children ext cfg t))) = []"
proof (rule render_leaves)
  fix e
  assume "e \<in> set (case_children ext cfg t)"
  from case_child_form [OF this] obtain n attrs x
    where n: "n = ''skipped'' \<or> n = ''failure''" and e: "e = XMLEntry n attrs [] x"
    by (elim exE conjE)
  from n have "n = ''skipped'' \<or> n = ''failure'' \<or> n = ''system-out'' \<or> n = ''system-err''"
    by (elim disjE) (simp_all only: simp_thms)
  with e show "\<exists>n attrs x. (n = ''skipped'' \<or> n = ''failure'' \<or> n = ''system-out''
      \<or> n = ''system-err'') \<and> e = XMLEntry n attrs [] x"
    by (intro exI [of _ n] exI [of _ attrs] exI [of _ x] conjI)
qed

lemma render_testcase:
  "filter (starts (''<test'' @ q)) (render ext strip (testcase_of ext cfg t))
     = filter (starts (''<test'' @ q))
         [open_tag ext strip ''testcase'' (xml_attributes (testcase_of ext cfg t))]"
  using render_case_children [of q ext strip cfg t] no_test_close [of q "''testcase''"]
  by (simp add: testcase_of_def text_tokens_def)

lemma testcase_tag:
  "starts ''<testcase '' (open_tag ext strip ''testcase'' (xml_attributes (testcase_of ext cfg t)))"
  "\<not> starts ''<testsuite '' (open_tag ext strip ''testcase'' (xml_attributes (testcase_of ext cfg t)))"
  by (simp_all add: starts_def open_tag_def testcase_of_def)

lemma testsuite_tag:
  "starts ''<testsuite '' (open_tag ext strip ''testsuite''
      (xml_attributes (fst (buildTestSuite ext cfg r s))))"
  "\<not> starts ''<testcase '' (open_tag ext strip ''testsuite''
      (xml_attributes (fst (buildTestSuite ext cfg r s))))"
  by (simp_all add: starts_def open_tag_def buildTestSuite_def Let_def)

lemma render_suite_children:
  "filter (starts (''<test'' @ q))
      (concat (map (render ext strip)
         (concat (map (\<lambda>t. testcase_of ext cfg t # output_entries t) tests))))
     = filter (starts (''<test'' @ q))
         (map (\<lambda>t. open_tag ext strip ''testcase'' (xml_attributes (testcase_of ext cfg t))) tests)"
proof (induction tests)
  case Nil
  show ?case by simp
next
  case (Cons t ts)
  show ?case
    using Cons render_testcase [of q ext strip cfg t] render_outputs [of q ext strip t]
    by simp
qed

lemma render_suite:
  "filter (starts (''<test'' @ q)) (render ext strip (fst (buildTestSuite ext cfg r s)))
     = filter (starts (''<test'' @ q))
         (open_tag ext strip ''testsuite'' (xml_attributes (fst (buildTestSuite ext cfg r s)))
          # map (\<lambda>t. open_tag ext strip ''testcase'' (xml_attributes (testcase_of ext cfg t)))
              (suite_tests s))"
proof -
  have e: "fst (buildTestSuite ext cfg r s)
      = XMLEntry ''testsuite'' (xml_attributes (fst (buildTestSuite ext cfg r s)))
          (concat (map (\<lambda>t. testcase_of ext cfg t # output_entries t) (suite_tests s))) None"
    by (simp add: buildTestSuite_def Let_def, subst visit_tests, simp)
  show ?thesis
    by (subst e)
       (simp add: render_suite_children [of q] no_test_close [of q "''testsuite''"]
          text_tokens_def del: append_Cons)
qed

lemma suite_testsuite_tags:
  "filter (starts ''<testsuite '') (render ext strip (fst (buildTestSuite ext cfg r s)))
     = [open_tag ext strip ''testsuite'' (xml_attributes (fst (buildTestSuite ext cfg r s)))]"
proof -
  have "filter (starts ''<testsuite '')
          (map (\<lambda>t. open_tag ext strip ''testcase'' (xml_attributes (testcase_of ext cfg t)))
             (suite_tests s)) = []"
    by (simp add: filter_empty_conv testcase_tag)
  then show ?thesis
    using render_suite [of "''suite ''" ext strip cfg r s] testsuite_tag(1) [of ext strip cfg r s]
    by simp
qed

lemma suite_testcase_tags:
  "filter (starts ''<testcase '') (render ext strip (fst (buildTestSuite ext cfg r s)))
     = map (\<lambda>t. open_tag ext strip ''testcase'' (xml_attributes (testcase_of ext cfg t)))
         (suite_tests s)"
proof -
  have "filter (starts ''<testcase '')
          (map (\<lambda>t. open_tag ext strip ''testcase'' (xml_attributes (testcase_of ext cfg t)))
             (suite_tests s))
        = map (\<lambda>t. open_tag ext strip ''testcase'' (xml_attributes (testcase_of ext cfg t)))
             (suite_tests s)"
    by (simp add: filter_id_conv testcase_tag)
  then show ?thesis
    using render_suite [of "''case ''" ext strip cfg r s] testsuite_tag(2) [of ext strip cfg r s]
    by simp
qed

lemma root_tags:
  assumes "attrs \<noteq> []"
  shows "filter (starts ''<testsuite '')
           (render ext strip (XMLEntry ''testsuites'' attrs
              (map (\<lambda>s. fst (buildTestSuite ext cfg r s)) suites) None))
         = map (\<lambda>s. open_tag ext strip ''testsuite''
                  (xml_attributes (fst (buildTestSuite ext cfg r s)))) suites"
    and "filter (starts ''<testcase '')
           (render ext strip (XMLEntry ''testsuites'' attrs
              (map (\<lambda>s. fst (buildTestSuite ext cfg r s)) suites) None))
         = concat (map (\<lambda>s. map (\<lambda>t. open_tag ext strip ''testcase''
                                   (xml_attributes (testcase_of ext cfg t))) (suite_tests s))
                     suites)"
    and "filter (starts ''<testsuites '')
           (render ext strip (XMLEntry ''testsuites'' attrs
              (map (\<lambda>s. fst (buildTestSuite ext cfg r s)) suites) None))
         = [open_tag ext strip ''testsuites'' attrs]"
proof -
  have o: "\<not> starts ''<testsuite '' (open_tag ext strip ''testsuites'' attrs)"
    "\<not> starts ''<testcase '' (open_tag ext strip ''testsuites'' attrs)"
    "starts ''<testsuites '' (open_tag ext strip ''testsuites'' attrs)"
    using assms by (simp_all add: starts_def open_tag_def)
  have c: "\<not> starts ''<testsuite '' ''</testsuites>''" "\<not> starts ''<testcase '' ''</testsuites>''"
    "\<not> starts ''<testsuites '' ''</testsuites>''"
    by (simp_all add: starts_def)
  have k1: "filter (starts ''<testsuite '')
              (concat (map (render ext strip) (map (\<lambda>s. fst (buildTestSuite ext cfg r s)) suites)))
            = map (\<lambda>s. open_tag ext strip ''testsuite''
                  (xml_attributes (fst (buildTestSuite ext cfg r s)))) suites"
    by (induction suites) (simp_all add: suite_testsuite_tags)
  have k2: "filter (starts ''<testcase '')
              (concat (map (render ext strip) (map (\<lambda>s. fst (buildTestSuite ext cfg r s)) suites)))
            = concat (map (\<lambda>s. map (\<lambda>t. open_tag ext strip ''testcase''
                                   (xml_attributes (testcase_of ext cfg t))) (suite_tests s))
                     suites)"
    by (induction suites) (simp_all add: suite_testcase_tags)
  have s3: "filter (starts ''<testsuites '') (render ext strip (fst (buildTestSuite ext cfg r s))) = []"
    for s
  proof -
    have "\<not> starts ''<testsuites '' x"
      if "x \<in> set (render ext strip (fst (buildTestSuite ext cfg r s)))" for x
    proof
      assume a: "starts ''<testsuites '' x"
      then have "starts (''<test'' @ ''suites '') x" by simp
      then have "x \<in> set (filter (starts (''<test'' @ ''suites ''))
                   (render ext strip (fst (buildTestSuite ext cfg r s))))"
        using that by simp
      then have "x \<in> set (open_tag ext strip ''testsuite''
                     (xml_attributes (fst (buildTestSuite ext cfg r s)))
          # map (\<lambda>t. open_tag ext strip ''testcase'' (xml_attributes (testcase_of ext cfg t)))
              (suite_tests s))"
        unfolding render_suite by (simp only: set_filter) blast
      then have "starts ''<testsuite '' x \<or> starts ''<testcase '' x"
        using testsuite_tag(1) [of ext strip cfg r s] testcase_tag(1) [of ext strip cfg]
        by auto
      moreover have "starts ''<testsuites'' x"
        using a starts_prefix [of "''<testsuites''" "'' ''" x] by simp
      moreover have "starts ''<testsuite'' x"
        using a starts_prefix [of "''<testsuite''" "''s ''" x] by simp
      ultimately have "''<testsuite '' = ''<testsuites'' \<or> ''<testcase '' = ''<testsuite''"
        using starts_same_length [of "''<testsuite ''" x "''<testsuites''"]
          starts_same_length [of "''<testcase ''" x "''<testsuite''"]
        by fastforce
      then show False by simp
    qed
    then show ?thesis
      by (auto simp: filter_empty_conv)
  qed
  have k3: "filter (starts ''<testsuites '')
              (concat (map (render ext strip) (map (\<lambda>s. fst (buildTestSuite ext cfg r s)) suites)))
            = []"
    by (induction suites) (simp_all add: s3)
  show "filter (starts ''<testsuite '')
           (render ext strip (XMLEntry ''testsuites'' attrs
              (map (\<lambda>s. fst (buildTestSuite ext cfg r s)) suites) None))
         = map (\<lambda>s. open_tag ext strip ''testsuite''
                  (xml_attributes (fst (buildTestSuite ext cfg r s)))) suites"
    using o(1) c(1) k1 by (simp add: text_tokens_def)
  show "filter (starts ''<testcase '')
           (render ext strip (XMLEntry ''testsuites'' attrs
              (map (\<lambda>s. fst (buildTestSuite ext cfg r s)) suites) None))
         = concat (map (\<lambda>s. map (\<lambda>t. open_tag ext strip ''testcase''
                                   (xml_attributes (testcase_of ext cfg t))) (suite_tests s))
                     suites)"
    using o(2) c(2) k2 by (simp add: text_tokens_def)
  show "filter (starts ''<testsuites '')
           (render ext strip (XMLEntry ''testsuites'' attrs
              (map (\<lambda>s. fst (buildTestSuite ext cfg r s)) suites) None))
         = [open_tag ext strip ''testsuites'' attrs]"
    using o(3) c(3) k3 by (simp add: text_tokens_def)
qed


subsection \<open>Counts\<close>

lemma buildTestSuite_snd:
  "snd (buildTestSuite ext cfg r s) =
     r\<lparr>totalTests := totalTests r + length (suite_tests s),
       totalSkipped := totalSkipped r + length (filter skipped (suite_tests s)),
       totalFailures := totalFailures r + length (filter (\<lambda>t. \<not> ok t) (suite_tests s))\<rparr>"
  by (simp add: buildTestSuite_def Let_def, subst (1 2 3) visit_tests, simp)

lemma buildTestSuite_attrs:
  "str_attr ''name'' (fst (buildTestSuite ext cfg r s))
     = Some (path_relative ext (testDir cfg) (suite_file s))"
  "num_attr ''tests'' (fst (buildTestSuite ext cfg r s)) = Some (of_nat (length (suite_tests s)))"
  "num_attr ''failures'' (fst (buildTestSuite ext cfg r s))
     = Some (of_nat (length (filter (\<lambda>t. \<not> ok t) (suite_tests s))))"
  "num_attr ''skipped'' (fst (buildTestSuite ext cfg r s))
     = Some (of_nat (length (filter skipped (suite_tests s))))"
  "num_attr ''errors'' (fst (buildTestSuite ext cfg r s)) = Some 0"
  by (simp_all add: buildTestSuite_def Let_def str_attr_def num_attr_def,
      (subst visit_tests, simp)+)

lemma buildTestSuite_fst_totals:
  "fst (buildTestSuite ext cfg (r\<lparr>totalTests := a, totalSkipped := b, totalFailures := c\<rparr>) s)
     = fst (buildTestSuite ext cfg r s)"
  by (simp add: buildTestSuite_def Let_def)

lemma suites_loop:
  "foldl (\<lambda>(cs, r1) s. (cs @ [fst (buildTestSuite ext cfg r1 s)],
                          snd (buildTestSuite ext cfg r1 s))) (cs, r) suites
     = (cs @ map (\<lambda>s. fst (buildTestSuite ext cfg r s)) suites,
        r\<lparr>totalTests := totalTests r + sum_list (map (\<lambda>s. length (suite_tests s)) suites),
          totalSkipped := totalSkipped r
             + sum_list (map (\<lambda>s. length (filter skipped (suite_tests s))) suites),
          totalFailures := totalFailures r
             + sum_list (map (\<lambda>s. length (filter (\<lambda>t. \<not> ok t) (suite_tests s))) suites)\<rparr>)"
proof (induction suites arbitrary: cs r)
  case Nil
  show ?case by simp
next
  case (Cons s ss)
  show ?case
    by (simp only: foldl_Cons prod.case, subst Cons.IH)
       (simp add: buildTestSuite_snd buildTestSuite_fst_totals)
qed

lemma sum_list_of_nat:
  "sum_list (map (\<lambda>x. (of_nat (f x) :: rat)) xs) = of_nat (sum_list (map f xs))"
  by (induction xs) simp_all

lemma sum_attr_map:
  "map (num_attr k) es = map (\<lambda>s. Some (of_nat (f s))) xs \<Longrightarrow>
   sum_attr k es = of_nat (sum_list (map f xs))"
proof -
  assume h: "map (num_attr k) es = map (\<lambda>s. Some (of_nat (f s))) xs"
  have "sum_attr k es = sum_list (map (\<lambda>v. case v of Some q \<Rightarrow> q | None \<Rightarrow> 0) (map (num_attr k) es))"
    by (simp add: sum_attr_def comp_def)
  also have "\<dots> = sum_list (map (\<lambda>x. (of_nat (f x) :: rat)) xs)"
    unfolding h by (simp add: comp_def)
  finally show ?thesis
    by (simp add: sum_list_of_nat)
qed

lemma junit_run_out:
  "junit_out (junit_run ext penv outFile strip cfg suites now t0 t1) =
     Some \<lparr>out_root =
             XMLEntry ''testsuites''
               [(''id'', AString (env_or_empty penv ''FOLIO_JUNIT_SUITE_ID'')),
                (''name'', AString (env_or_empty penv ''FOLIO_JUNIT_SUITE_NAME'')),
                (''tests'', ANumber (of_nat (sum_list (map (\<lambda>s. length (suite_tests s)) suites)))),
                (''failures'', ANumber (of_nat (sum_list
                    (map (\<lambda>s. length (filter (\<lambda>t. \<not> ok t) (suite_tests s))) suites)))),
                (''skipped'', ANumber (of_nat (sum_list
                    (map (\<lambda>s. length (filter skipped (suite_tests s))) suites)))),
                (''errors'', ANumber 0),
                (''time'', ANumber (of_int (t1 - t0) / 1000))]
               (map (\<lambda>s. fst (buildTestSuite ext cfg
                       (junit_onBegin cfg suites now t0 (junit_new outFile strip)) s)) suites)
               None,
           out_report =
             join [CHR 0x0A]
               (render ext (case strip of None \<Rightarrow> False | Some b \<Rightarrow> b)
                 (XMLEntry ''testsuites''
                   [(''id'', AString (env_or_empty penv ''FOLIO_JUNIT_SUITE_ID'')),
                    (''name'', AString (env_or_empty penv ''FOLIO_JUNIT_SUITE_NAME'')),
                    (''tests'', ANumber (of_nat (sum_list (map (\<lambda>s. length (suite_tests s)) suites)))),
                    (''failures'', ANumber (of_nat (sum_list
                        (map (\<lambda>s. length (filter (\<lambda>t. \<not> ok t) (suite_tests s))) suites)))),
                    (''skipped'', ANumber (of_nat (sum_list
                        (map (\<lambda>s. length (filter skipped (suite_tests s))) suites)))),
                    (''errors'', ANumber 0),
                    (''time'', ANumber (of_int (t1 - t0) / 1000))]
                   (map (\<lambda>s. fst (buildTestSuite ext cfg
                           (junit_onBegin cfg suites now t0 (junit_new outFile strip)) s)) suites)
                   None)),
           out_file = (case nonempty outFile of
                         Some f \<Rightarrow> Some f
                       | None \<Rightarrow> nonempty (penv ''FOLIO_JUNIT_OUTPUT_NAME''))\<rparr>"
proof -
  let ?r = "junit_onBegin cfg suites now t0 (junit_new outFile strip)"
  have c: "jr_config ?r = Some cfg" "jr_suite ?r = Some suites" "jr_startTime ?r = t0"
    "totalTests ?r = 0" "totalSkipped ?r = 0" "totalFailures ?r = 0"
    "outputFile ?r = outFile"
    "stripANSIControlSequences ?r = (case strip of None \<Rightarrow> False | Some b \<Rightarrow> b)"
    by (simp_all add: junit_onBegin_def junit_new_def)
  show ?thesis
    unfolding junit_run_def junit_onEnd_def
    by (simp add: c case_prod_beta Let_def suites_loop junit_out_def serializeXML_render
          del: render.simps)
qed


text \<open>
  Claim C5. After a run (constructor, \<open>onBegin\<close>, \<open>onEnd\<close>) the reporter has
  produced a report. Its root is \<open>testsuites\<close>; its children are one
  \<open>testsuite\<close> per file suite, named by the file's path relative to the test
  directory, each with one \<open>testcase\<close> per test; the root's \<open>tests\<close>,
  \<open>failures\<close> and \<open>skipped\<close> are the sums of the same attributes of its
  children, and \<open>errors\<close> is 0. The text that is written or printed is the
  serialisation of that root, one token a line: exactly one of its lines opens
  \<open>testsuites\<close>, as many lines open a \<open>testsuite\<close> as there are file suites and
  as many open a \<open>testcase\<close> as there are tests; the tokens that open a
  \<open>testsuite\<close> are the opening tags of the root's children, in order, and those
  that open a \<open>testcase\<close> are the opening tags of the tests' \<open>testcase\<close>s, file
  by file. The totals are fields that \<open>onEnd\<close> adds to, so the statement is about
  the one \<open>onEnd\<close> of a run.
\<close>

theorem junit_report_counts:
  "\<exists>out. junit_out (junit_run ext penv outFile strip cfg suites now t0 t1) = Some out
     \<and> xml_name (out_root out) = ''testsuites''
     \<and> map xml_name (xml_children (out_root out)) = map (\<lambda>s. ''testsuite'') suites
     \<and> map (str_attr ''name'') (xml_children (out_root out))
         = map (\<lambda>s. Some (path_relative ext (testDir cfg) (suite_file s))) suites
     \<and> map (\<lambda>e. length (filter (\<lambda>c. xml_name c = ''testcase'') (xml_children e)))
           (xml_children (out_root out))
         = map (\<lambda>s. length (suite_tests s)) suites
     \<and> map (num_attr ''tests'') (xml_children (out_root out))
         = map (\<lambda>s. Some (of_nat (length (suite_tests s)))) suites
     \<and> map (num_attr ''failures'') (xml_children (out_root out))
         = map (\<lambda>s. Some (of_nat (length (filter (\<lambda>t. \<not> ok t) (suite_tests s))))) suites
     \<and> map (num_attr ''skipped'') (xml_children (out_root out))
         = map (\<lambda>s. Some (of_nat (length (filter skipped (suite_tests s))))) suites
     \<and> num_attr ''tests'' (out_root out) = Some (sum_attr ''tests'' (xml_children (out_root out)))
     \<and> num_attr ''failures'' (out_root out)
         = Some (sum_attr ''failures'' (xml_children (out_root out)))
     \<and> num_attr ''skipped'' (out_root out)
         = Some (sum_attr ''skipped'' (xml_children (out_root out)))
     \<and> num_attr ''errors'' (out_root out) = Some 0
     \<and> out_report out
         = join [CHR 0x0A] (serializeXML ext (out_root out) []
                              (case strip of None \<Rightarrow> False | Some b \<Rightarrow> b))
     \<and> count_lines ''<testsuites '' (out_report out) = 1
     \<and> count_lines ''<testsuite '' (out_report out) = length suites
     \<and> count_lines ''<testcase '' (out_report out)
         = sum_list (map (\<lambda>s. length (suite_tests s)) suites)
     \<and> filter (starts ''<testsuite '')
           (serializeXML ext (out_root out) [] (case strip of None \<Rightarrow> False | Some b \<Rightarrow> b))
         = map (\<lambda>e. open_tag ext (case strip of None \<Rightarrow> False | Some b \<Rightarrow> b)
                      ''testsuite'' (xml_attributes e))
             (xml_children (out_root out))
     \<and> filter (starts ''<testcase '')
           (serializeXML ext (out_root out) [] (case strip of None \<Rightarrow> False | Some b \<Rightarrow> b))
         = concat (map (\<lambda>s. map (\<lambda>t. open_tag ext (case strip of None \<Rightarrow> False | Some b \<Rightarrow> b)
                                      ''testcase'' (xml_attributes (testcase_of ext cfg t)))
                               (suite_tests s))
                     suites)"
proof -
  define r where "r = junit_onBegin cfg suites now t0 (junit_new outFile strip)"
  define kids where "kids = map (\<lambda>s. fst (buildTestSuite ext cfg r s)) suites"
  define attrs where "attrs =
     [(''id'', AString (env_or_empty penv ''FOLIO_JUNIT_SUITE_ID'')),
      (''name'', AString (env_or_empty penv ''FOLIO_JUNIT_SUITE_NAME'')),
      (''tests'', ANumber (of_nat (sum_list (map (\<lambda>s. length (suite_tests s)) suites)))),
      (''failures'', ANumber (of_nat (sum_list
          (map (\<lambda>s. length (filter (\<lambda>t. \<not> ok t) (suite_tests s))) suites)))),
      (''skipped'', ANumber (of_nat (sum_list
          (map (\<lambda>s. length (filter skipped (suite_tests s))) suites)))),
      (''errors'', ANumber 0),
      (''time'', ANumber (of_int (t1 - t0) / 1000))]"
  define root where "root = XMLEntry ''testsuites'' attrs kids None"
  define sflag where "sflag = (case strip of None \<Rightarrow> False | Some b \<Rightarrow> b)"
  define report where "report = join [CHR 0x0A] (render ext sflag root)"
  define out where "out = \<lparr>out_root = root, out_report = report,
     out_file = (case nonempty outFile of
                   Some f \<Rightarrow> Some f
                 | None \<Rightarrow> nonempty (penv ''FOLIO_JUNIT_OUTPUT_NAME''))\<rparr>"
  have run: "junit_out (junit_run ext penv outFile strip cfg suites now t0 t1) = Some out"
    unfolding out_def report_def root_def attrs_def kids_def r_def sflag_def
    by (rule junit_run_out)
  have o: "out_root out = root" "out_report out = report"
    by (simp_all add: out_def)
  have nm: "xml_name root = ''testsuites''" and kids: "xml_children root = kids"
    and ra: "xml_attributes root = attrs"
    by (simp_all add: root_def)
  have tests: "num_attr ''tests'' root
                  = Some (of_nat (sum_list (map (\<lambda>s. length (suite_tests s)) suites)))"
    and failures: "num_attr ''failures'' root
        = Some (of_nat (sum_list (map (\<lambda>s. length (filter (\<lambda>t. \<not> ok t) (suite_tests s))) suites)))"
    and skipped: "num_attr ''skipped'' root
        = Some (of_nat (sum_list (map (\<lambda>s. length (filter skipped (suite_tests s))) suites)))"
    and errors: "num_attr ''errors'' root = Some 0"
    by (simp_all add: num_attr_def ra attrs_def)
  have k1: "map xml_name kids = map (\<lambda>s. ''testsuite'') suites"
    by (simp add: kids_def comp_def buildTestSuite_name)
  have k2: "map (str_attr ''name'') kids
         = map (\<lambda>s. Some (path_relative ext (testDir cfg) (suite_file s))) suites"
    by (simp add: kids_def comp_def buildTestSuite_attrs)
  have k3: "map (\<lambda>e. length (filter (\<lambda>c. xml_name c = ''testcase'') (xml_children e))) kids
         = map (\<lambda>s. length (suite_tests s)) suites"
    by (simp add: kids_def comp_def buildTestSuite_children filter_testcases)
  have k4: "map (num_attr ''tests'') kids
         = map (\<lambda>s. Some (of_nat (length (suite_tests s)))) suites"
    by (simp add: kids_def comp_def buildTestSuite_attrs)
  have k5: "map (num_attr ''failures'') kids
         = map (\<lambda>s. Some (of_nat (length (filter (\<lambda>t. \<not> ok t) (suite_tests s))))) suites"
    by (simp add: kids_def comp_def buildTestSuite_attrs)
  have k6: "map (num_attr ''skipped'') kids
         = map (\<lambda>s. Some (of_nat (length (filter skipped (suite_tests s))))) suites"
    by (simp add: kids_def comp_def buildTestSuite_attrs)
  have s1: "num_attr ''tests'' root = Some (sum_attr ''tests'' kids)"
    unfolding tests sum_attr_map [OF k4] ..
  have s2: "num_attr ''failures'' root = Some (sum_attr ''failures'' kids)"
    unfolding failures sum_attr_map [OF k5] ..
  have s3: "num_attr ''skipped'' root = Some (sum_attr ''skipped'' kids)"
    unfolding skipped sum_attr_map [OF k6] ..
  have ser: "serializeXML ext root [] sflag = render ext sflag root"
    by (simp add: serializeXML_render)
  have rep: "report = join [CHR 0x0A] (serializeXML ext root [] sflag)"
    unfolding ser report_def ..
  have ne: "attrs \<noteq> []"
    by (simp add: attrs_def)
  have safe: "tag_safe root"
    by (simp add: root_def attrs_def kids_def list_all_iff tag_safe_suite)
  have t1: "filter (starts ''<testsuite '') (render ext sflag root)
              = map (\<lambda>e. open_tag ext sflag ''testsuite'' (xml_attributes e)) kids"
    unfolding root_def kids_def root_tags(1) [OF ne] by (simp add: comp_def)
  have t2: "filter (starts ''<testcase '') (render ext sflag root)
              = concat (map (\<lambda>s. map (\<lambda>t. open_tag ext sflag ''testcase''
                                   (xml_attributes (testcase_of ext cfg t))) (suite_tests s))
                     suites)"
    unfolding root_def kids_def by (rule root_tags(2) [OF ne])
  have t3: "filter (starts ''<testsuites '') (render ext sflag root)
              = [open_tag ext sflag ''testsuites'' attrs]"
    unfolding root_def kids_def by (rule root_tags(3) [OF ne])
  have c1: "count_lines ''<testsuites '' report = 1"
    unfolding report_def using report_line_count [OF safe, of "''testsuites ''" ext sflag] t3
    by simp
  have c2: "count_lines ''<testsuite '' report = length suites"
    unfolding report_def using report_line_count [OF safe, of "''testsuite ''" ext sflag] t1
    by (simp add: kids_def)
  have c3: "count_lines ''<testcase '' report = sum_list (map (\<lambda>s. length (suite_tests s)) suites)"
    unfolding report_def using report_line_count [OF safe, of "''testcase ''" ext sflag] t2
    by (simp add: length_concat comp_def)
  show ?thesis
    apply (rule exI [of _ out])
    unfolding o kids sflag_def [symmetric] ser
    by (intro conjI run nm k1 k2 k3 k4 k5 k6 s1 s2 s3 errors rep [unfolded ser] c1 c2 c3 t1 t2)
qed

lemma passing_tag:
  "open_tag scenario_lib False ''testcase''
      (xml_attributes (testcase_of scenario_lib \<lparr>testDir = ''/t'', outputDir = ''test-results''\<rparr>
         (passing_test (''/t/'' @ f) t)))
     = ''<testcase name='' @ [CHR 0x22] @ escape t False False @ [CHR 0x22]
         @ '' classname='' @ [CHR 0x22] @ escape (f @ '' '') False False @ [CHR 0x22]
         @ '' time='' @ [CHR 0x22] @ ''0.003'' @ [CHR 0x22] @ ''>''"
proof -
  have a: "show_thousandths 3 = ''0.003''"
    by (simp add: show_thousandths_def decimal.simps [of 0] digitChar_def)
  have b: "number_string scenario_lib (3 / 1000) = ''0.003''"
    by (simp add: scenario_lib_def a)
  have c: "escape ''0.003'' False False = ''0.003''"
    by (simp add: escape_def escapeRe_def discouraged_def)
  have d: "path_relative scenario_lib ''/t'' (CHR ''/'' # CHR ''t'' # CHR ''/'' # f) = f"
    by (simp add: scenario_lib_def)
  show ?thesis
    by (simp add: open_tag_def testcase_of_def passing_test_def js_String_def total_duration_def
          b c d)
qed

theorem junit_report_counts_witness:
  "\<exists>out. junit_out (junit_run scenario_lib (\<lambda>k. None) None None
                        \<lparr>testDir = ''/t'', outputDir = ''test-results''\<rparr> two_files 0 0 10)
             = Some out
     \<and> num_attr ''tests'' (out_root out) = Some 2
     \<and> num_attr ''failures'' (out_root out) = Some 0
     \<and> map xml_name (xml_children (out_root out)) = [''testsuite'', ''testsuite'']
     \<and> map (str_attr ''name'') (xml_children (out_root out))
         = [Some ''a.test.js'', Some ''b.test.js'']
     \<and> count_lines ''<testsuites '' (out_report out) = 1
     \<and> count_lines ''<testsuite '' (out_report out) = 2
     \<and> count_lines ''<testcase '' (out_report out) = 2
     \<and> filter (starts ''<testcase '') (serializeXML scenario_lib (out_root out) [] False)
         = [''<testcase name='' @ [CHR 0x22] @ ''one'' @ [CHR 0x22]
              @ '' classname='' @ [CHR 0x22] @ ''a.test.js '' @ [CHR 0x22]
              @ '' time='' @ [CHR 0x22] @ ''0.003'' @ [CHR 0x22] @ ''>'',
            ''<testcase name='' @ [CHR 0x22] @ ''two'' @ [CHR 0x22]
              @ '' classname='' @ [CHR 0x22] @ ''b.test.js '' @ [CHR 0x22]
              @ '' time='' @ [CHR 0x22] @ ''0.003'' @ [CHR 0x22] @ ''>'']"
proof -
  let ?cfg = "\<lparr>testDir = ''/t'', outputDir = ''test-results''\<rparr>"
  obtain out where
    r: "junit_out (junit_run scenario_lib (\<lambda>k. None) None None ?cfg two_files 0 0 10) = Some out"
    and n: "map xml_name (xml_children (out_root out)) = map (\<lambda>s. ''testsuite'') two_files"
    and f: "map (str_attr ''name'') (xml_children (out_root out))
         = map (\<lambda>s. Some (path_relative scenario_lib (testDir ?cfg) (suite_file s))) two_files"
    and t: "map (num_attr ''tests'') (xml_children (out_root out))
         = map (\<lambda>s. Some (of_nat (length (suite_tests s)))) two_files"
    and u: "map (num_attr ''failures'') (xml_children (out_root out))
         = map (\<lambda>s. Some (of_nat (length (filter (\<lambda>t. \<not> ok t) (suite_tests s))))) two_files"
    and st: "num_attr ''tests'' (out_root out) = Some (sum_attr ''tests'' (xml_children (out_root out)))"
    and sf: "num_attr ''failures'' (out_root out)
               = Some (sum_attr ''failures'' (xml_children (out_root out)))"
    and c1: "count_lines ''<testsuites '' (out_report out) = 1"
    and c2: "count_lines ''<testsuite '' (out_report out) = length two_files"
    and c3: "count_lines ''<testcase '' (out_report out)
               = sum_list (map (\<lambda>s. length (suite_tests s)) two_files)"
    and tc: "filter (starts ''<testcase '')
               (serializeXML scenario_lib (out_root out) []
                  (case (None :: bool option) of None \<Rightarrow> False | Some b \<Rightarrow> b))
             = concat (map (\<lambda>s. map (\<lambda>t. open_tag scenario_lib
                                  (case (None :: bool option) of None \<Rightarrow> False | Some b \<Rightarrow> b)
                                  ''testcase'' (xml_attributes (testcase_of scenario_lib ?cfg t)))
                               (suite_tests s))
                     two_files)"
    using junit_report_counts [of scenario_lib "\<lambda>k. None" None None ?cfg two_files 0 0 10]
    by blast
  have "sum_attr ''tests'' (xml_children (out_root out)) = 2"
    using sum_attr_map [OF t] by (simp add: two_files_def)
  moreover have "sum_attr ''failures'' (xml_children (out_root out)) = 0"
    using sum_attr_map [OF u] by (simp add: two_files_def passing_test_def)
  moreover have "map xml_name (xml_children (out_root out)) = [''testsuite'', ''testsuite'']"
    using n by (simp add: two_files_def)
  moreover have "map (str_attr ''name'') (xml_children (out_root out))
                   = [Some ''a.test.js'', Some ''b.test.js'']"
    using f by (simp add: two_files_def scenario_lib_def)
  moreover have "count_lines ''<testsuite '' (out_report out) = 2"
    using c2 by (simp add: two_files_def)
  moreover have "count_lines ''<testcase '' (out_report out) = 2"
    using c3 by (simp add: two_files_def)
  moreover have "filter (starts ''<testcase '') (serializeXML scenario_lib (out_root out) [] False)
         = [''<testcase name='' @ [CHR 0x22] @ ''one'' @ [CHR 0x22]
              @ '' classname='' @ [CHR 0x22] @ ''a.test.js '' @ [CHR 0x22]
              @ '' time='' @ [CHR 0x22] @ ''0.003'' @ [CHR 0x22] @ ''>'',
            ''<testcase name='' @ [CHR 0x22] @ ''two'' @ [CHR 0x22]
              @ '' classname='' @ [CHR 0x22] @ ''b.test.js '' @ [CHR 0x22]
              @ '' time='' @ [CHR 0x22] @ ''0.003'' @ [CHR 0x22] @ ''>'']"
  proof -
    have e: "escape ''one'' False False = ''one''" "escape ''two'' False False = ''two''"
      "escape ''a.test.js '' False False = ''a.test.js ''"
      "escape ''b.test.js '' False False = ''b.test.js ''"
      by (simp_all add: escape_def escapeRe_def discouraged_def)
    show ?thesis
      using tc passing_tag [of "''a.test.js''" "''one''"] passing_tag [of "''b.test.js''" "''two''"]
      by (simp add: two_files_def e)
  qed
  ultimately show ?thesis
    using r st sf c1 by (intro exI [of _ out]) simp
qed

section \<open>Service reporter\<close>

lemma getSasToken_returns:
  "fst (getSasToken penv permission w) = None"
  "cells (snd (getSasToken penv permission w)) = cells w @ [None]"
  "length (requests (snd (getSasToken penv permission w))) = Suc (length (requests w))"
  by (simp_all add: getSasToken_def Let_def)

text \<open>
  Claim C7 is about what \<open>getSasToken\<close> should return; the code returns the
  variable before the response can have assigned it. Whatever the environment and
  the requests in flight, \<open>getSasToken\<close> returns \<open>undefined\<close>, and \<open>onBegin\<close>
  caches \<open>undefined\<close> for both tokens. When the responses arrive afterwards they
  assign the closure variables, not the fields of the reporter.
\<close>

theorem getSasToken_returns_undefined:
  "fst (getSasToken penv permission w) = None
   \<and> writeSasToken (fst (service_onBegin penv cfg suite started_at (r, w))) = None
   \<and> readSasToken (fst (service_onBegin penv cfg suite started_at (r, w))) = None
   \<and> blobServiceUrl (fst (service_onBegin penv cfg suite started_at (r, w))) = Some ''undefined''"
proof -
  obtain wt w1 where a: "getSasToken penv ''Write'' w = (wt, w1)"
    by (cases "getSasToken penv ''Write'' w")
  obtain rt w2 where b: "getSasToken penv ''Read'' w1 = (rt, w2)"
    by (cases "getSasToken penv ''Read'' w1")
  have wt: "wt = None" using getSasToken_returns(1) [of penv "''Write''" w] a by simp
  have rt: "rt = None" using getSasToken_returns(1) [of penv "''Read''" w1] b by simp
  show ?thesis
    by (simp add: getSasToken_returns(1) service_onBegin_def a b wt rt tpl_def)
qed

text \<open>
  A run: \<open>onBegin\<close> on a fresh reporter, then the two responses arrive with their
  tokens. The closure variables hold the tokens; the reporter's fields do not.
\<close>

lemma tokens_never_cached:
  "(let penv = (\<lambda>k. None);
        (r, w) = service_onBegin penv \<lparr>testDir = ''/t'', outputDir = ''o''\<rparr> [] 0
                   (service_new, \<lparr>cells = [], requests = []\<rparr>);
        w' = on_data 1 (Some ''https://acct/c?sv=r'') (on_data 0 (Some ''https://acct/c?sv=w'') w)
    in (writeSasToken r, readSasToken r, cells w'))
   = (None, None, [Some ''https://acct/c?sv=w'', Some ''https://acct/c?sv=r''])"
  by (simp add: service_onBegin_def getSasToken_def on_data_def service_new_def Let_def)

text \<open>
  Claim C8 asks for every space of the title to become a dash; \<open>replace(' ', '-')\<close>
  with a string pattern replaces the first space only. For the title
  \<open>suite my test\<close> the directory keeps a space.
\<close>

theorem getTestOutputDir_first_space_only:
  "getTestOutputDir scenario_lib \<lparr>testDir = ''/t'', outputDir = ''test-results''\<rparr>
     \<lparr>spec_title = ''my test'', spec_fullTitle = ''suite my test'',
      spec_parent_fullTitle = ''suite'', spec_file = ''/t/a.spec.ts'', spec_line = 3,
      spec_column = 7, skipped = False, ok = True, results = [],
      variation = [(''browserName'', ''chromium'')]\<rparr>
   = ''test-results/a/suite-my test/chromium''
   \<and> slug_spec ''suite my test'' = ''suite-my-test''"
  by (simp add: getTestOutputDir_def scenario_lib_def replace_first.simps tpl_def slug_spec_def)

text \<open>
  Claim C9 asks \<open>_getTestResultBlobs\<close> to return a one-element list; the variable
  it pushes onto holds \<open>undefined\<close>, so the call raises for every reporter state and
  environment.
\<close>

theorem getTestResultBlobs_raises:
  "getTestResultBlobs penv r = Inl TypeError"
  by (simp add: getTestResultBlobs_def array_push_def)

end
